theory Spec2Isabelle
  imports Main "HOL-Library.Word"
begin

section \<open>The queues of package queue (queue/queue.go)\<close>

text \<open>
  Both queues are a Go slice \<open>a\<close>. \<open>Fifo\<close> appends at the end and removes at index 0;
  \<open>Lifo\<close> appends at the end and removes at the end. The Go functions return
  \<open>(v, ok)\<close>; \<open>ok = false\<close> is \<open>None\<close> here, and the new slice is returned with the value.
\<close>

definition Fifo_Unshift :: "'e list \<Rightarrow> 'e \<Rightarrow> 'e list" where
  "Fifo_Unshift a v = a @ [v]"

fun Fifo_Shift :: "'e list \<Rightarrow> ('e \<times> 'e list) option" where
  "Fifo_Shift [] = None"
| "Fifo_Shift (v # a) = Some (v, a)"

definition Fifo_DeleteFunc :: "'e list \<Rightarrow> ('e \<Rightarrow> bool) \<Rightarrow> 'e list" where
  "Fifo_DeleteFunc a f = filter (\<lambda>e. \<not> f e) a"

definition Fifo_Len :: "'e list \<Rightarrow> nat" where
  "Fifo_Len a = length a"

definition Lifo_Push :: "'e list \<Rightarrow> 'e \<Rightarrow> 'e list" where
  "Lifo_Push a v = a @ [v]"

definition Lifo_Pop :: "'e list \<Rightarrow> ('e \<times> 'e list) option" where
  "Lifo_Pop a = (if length a = 0 then None else Some (last a, butlast a))"

section \<open>Channels, errors and the pool state (list.go)\<close>

text \<open>
  A waiter's channel is \<open>make(chan T, 1)\<close>: one buffer slot and a closed flag. Channels are
  shared objects with an identity (the same channel can sit in the waiter queue, in
  \<open>chanPool\<close> and in a local variable of a goroutine), so they live in a store indexed
  by a number.
\<close>

record 'a chan =
  buf :: "'a option"
  chclosed :: bool

definition make_chan :: "'a chan" where
  "make_chan = \<lparr>buf = None, chclosed = False\<rparr>"

text \<open>
  \<open>select { case ch <- v: default: panic(...) }\<close>: a send on a closed channel panics in
  the Go runtime, a send into the free slot succeeds, and a full slot takes the default
  branch, the panic of \<open>maybeHandoff\<close>.
\<close>

definition chan_send :: "'a chan \<Rightarrow> 'a \<Rightarrow> string + 'a chan" where
  "chan_send c v =
     (if chclosed c then Inl ''send on closed channel''
      else if buf c = None then Inr (c\<lparr>buf := Some v\<rparr>)
      else Inl ''waiter: waiter channel full (this is a bug in waitlist)'')"

text \<open>
  \<open>v, ok := <-ch\<close>: a buffered value is received first (\<open>Some v\<close>, ok); an empty closed
  channel yields the zero value with \<open>ok = false\<close> (\<open>None\<close>); an empty open channel is
  not ready (the outer \<open>None\<close>).
\<close>

definition chan_recv :: "'a chan \<Rightarrow> ('a option \<times> 'a chan) option" where
  "chan_recv c =
     (case buf c of
        Some v \<Rightarrow> Some (Some v, c\<lparr>buf := None\<rparr>)
      | None \<Rightarrow> if chclosed c then Some (None, c) else None)"

text \<open>\<open>close(ch)\<close> panics on a channel that is closed already.\<close>

definition chan_close :: "'a chan \<Rightarrow> 'a chan option" where
  "chan_close c = (if chclosed c then None else Some (c\<lparr>chclosed := True\<rparr>))"

datatype err = ErrMaxWaiters | ErrClosed | Canceled | DeadlineExceeded | Cause string

text \<open>
  The \<open>load\<close> argument of Take is either nil or a function of the caller. What a caller's
  function returns is decided when it is called.
\<close>

datatype loadfn = LoadNil | LoadFn

datatype 'a result =
    TakeRet "err + 'a"
  | TryTakeRet 'a bool
  | PutRet bool
  | CloseRet

text \<open>
  The program counter and the local variables of a goroutine that runs one of the
  methods of List. Each constructor stands before one atomic step (see \<open>thread_step\<close>).
  \<open>Returned\<close> holds what the method returned. \<open>Panicked\<close> holds the message of a panic:
  a panic ends the Go program, while the model only stops the panicking goroutine, which
  adds executions and removes none.
\<close>

datatype 'a thread =
    Take_entry nat loadfn
  | Take_closed nat loadfn
  | Take_ctxerr nat loadfn
  | Take_register nat loadfn
  | Take_spawn nat loadfn nat
  | Take_select nat nat
  | Take_recvd nat "'a option"
  | handleCancel_delete nat err
  | handleCancel_recheck nat err
  | Take_release nat "err + 'a"
  | TryTake_entry
  | Put_entry 'a
  | Put_handoff1 'a
  | Put_send1 nat 'a
  | Put_lock 'a
  | Put_handoff2 'a
  | Put_send2 nat 'a
  | Put_push 'a
  | Close_entry
  | Close_lock
  | Close_loop
  | Go_load loadfn
  | Returned "'a result"
  | Panicked string

text \<open>
  The fields of \<open>List[Item]\<close> (Go's \<open>int\<close> as a 64-bit word, compared signed), followed by
  what the Go runtime holds: the channel store, the cancellation state of every context,
  the goroutines, and a count of the calls of a load function made so far. A mutex holds
  the number of the goroutine that has locked it. The zero value of the type \<open>Item\<close> is
  the \<open>0\<close> of the type class \<open>zero\<close>.
\<close>

record 'a state =
  MaxItems :: "64 word"
  MaxWaiters :: "64 word"
  readyMu :: "nat option"
  ready :: "'a list"
  loads :: "64 word"
  waitersMu :: "nat option"
  waiters :: "nat list"
  chanPool :: "nat list"
  closed :: bool
  chans :: "nat \<Rightarrow> 'a chan"
  nchans :: nat
  ctxs :: "nat \<Rightarrow> err option"
  threads :: "'a thread list"
  calls :: nat

text \<open>The zero value of List with the two limits set: \<open>&List[T]{MaxItems: mi, MaxWaiters: mw}\<close>.\<close>

definition init :: "64 word \<Rightarrow> 64 word \<Rightarrow> 'a state" where
  "init mi mw =
     \<lparr>MaxItems = mi, MaxWaiters = mw, readyMu = None, ready = [], loads = 0,
      waitersMu = None, waiters = [], chanPool = [], closed = False,
      chans = (\<lambda>_. make_chan), nchans = 0, ctxs = (\<lambda>_. None), threads = [], calls = 0\<rparr>"

text \<open>
  What the scheduler and the environment decide at a step: which branch a \<open>select\<close> with
  two ready cases takes, what \<open>sync.Pool.Get\<close> returns (a pooled channel, or nil, which
  it may return at any time), and what a caller's load function returns.
\<close>

datatype 'a choice = Default | PoolNil | PoolGet nat | SelRecv | SelDone | LoadRet 'a

definition goto :: "nat \<Rightarrow> 'a thread \<Rightarrow> 'a state \<Rightarrow> 'a state" where
  "goto t th s = s\<lparr>threads := (threads s)[t := th]\<rparr>"

text \<open>
  \<open>ch, _ := p.chanPool.Get().(chan T); if ch == nil { ch = make(chan T, 1) }\<close>
\<close>

definition chanPool_Get :: "'a state \<Rightarrow> 'a choice \<Rightarrow> (nat \<times> 'a state) option" where
  "chanPool_Get s c =
     (case c of
        PoolGet i \<Rightarrow>
          if i < length (chanPool s)
          then Some (chanPool s ! i, s\<lparr>chanPool := take i (chanPool s) @ drop (Suc i) (chanPool s)\<rparr>)
          else None
      | PoolNil \<Rightarrow>
          Some (nchans s, s\<lparr>chans := (chans s)(nchans s := make_chan), nchans := Suc (nchans s)\<rparr>)
      | _ \<Rightarrow> None)"

definition chanPool_Put :: "nat \<Rightarrow> 'a state \<Rightarrow> 'a state" where
  "chanPool_Put ch s = s\<lparr>chanPool := chanPool s @ [ch]\<rparr>"

text \<open>
  The first half of the closure \<open>maybeHandoff\<close> of Put: \<open>waitersMu.Lock(); ch, ok :=
  waiters.Shift(); waitersMu.Unlock()\<close>, one critical section. The second half, the send,
  runs after the unlock and is a step of its own.
\<close>

definition maybeHandoff_shift :: "'a state \<Rightarrow> (nat option \<times> 'a state) option" where
  "maybeHandoff_shift s =
     (if waitersMu s \<noteq> None then None
      else case Fifo_Shift (waiters s) of
             None \<Rightarrow> Some (None, s)
           | Some (ch, a) \<Rightarrow> Some (Some ch, s\<lparr>waiters := a\<rparr>))"

definition maybeHandoff_send :: "'a state \<Rightarrow> nat \<Rightarrow> 'a \<Rightarrow> string + 'a state" where
  "maybeHandoff_send s ch v =
     (case chan_send (chans s ch) v of
        Inl msg \<Rightarrow> Inl msg
      | Inr c \<Rightarrow> Inr (s\<lparr>chans := (chans s)(ch := c)\<rparr>))"

text \<open>
  One atomic step of goroutine \<open>t\<close>. A step is one access to a shared object that no
  mutex guards (the atomic \<open>closed\<close>, a context, a channel, \<open>chanPool\<close>), together with
  the accesses to mutex-guarded fields next to it that run under the same held mutex;
  \<open>Lock\<close> is taken with the first access it guards and \<open>Unlock\<close> with the last. A step
  that needs a mutex another goroutine holds is not enabled (\<open>None\<close>), as is a receive on
  an empty open channel. The source lines are those of list.go.
\<close>

fun thread_step :: "'a::zero state \<Rightarrow> nat \<Rightarrow> 'a choice \<Rightarrow> 'a thread \<Rightarrow> 'a state option" where
  \<comment> \<open>Take, lines 102-109: lock readyMu, pop the ready stack\<close>
  "thread_step s t c (Take_entry ctx load) =
     (if readyMu s \<noteq> None then None
      else case Lifo_Pop (ready s) of
             Some (v, a) \<Rightarrow> Some (goto t (Returned (TakeRet (Inr v))) (s\<lparr>ready := a\<rparr>))
           | None \<Rightarrow> Some (goto t (Take_closed ctx load) (s\<lparr>readyMu := Some t\<rparr>)))"
  \<comment> \<open>lines 112-115\<close>
| "thread_step s t c (Take_closed ctx load) =
     (if closed s
      then Some (goto t (Returned (TakeRet (Inl ErrClosed))) (s\<lparr>readyMu := None\<rparr>))
      else Some (goto t (Take_ctxerr ctx load) s))"
  \<comment> \<open>lines 117-120\<close>
| "thread_step s t c (Take_ctxerr ctx load) =
     (case ctxs s ctx of
        Some cause \<Rightarrow> Some (goto t (Returned (TakeRet (Inl cause))) (s\<lparr>readyMu := None\<rparr>))
      | None \<Rightarrow> Some (goto t (Take_register ctx load) s))"
  \<comment> \<open>lines 122-136: lock waitersMu, check MaxWaiters, get a channel, get in line\<close>
| "thread_step s t c (Take_register ctx load) =
     (if waitersMu s \<noteq> None then None
      else if 0 <s MaxWaiters s \<and> sint (MaxWaiters s) \<le> int (Fifo_Len (waiters s))
      then Some (goto t (Returned (TakeRet (Inl ErrMaxWaiters))) (s\<lparr>readyMu := None\<rparr>))
      else case chanPool_Get s c of
             None \<Rightarrow> None
           | Some (ch, s1) \<Rightarrow>
               Some (goto t (Take_spawn ctx load ch)
                      (s1\<lparr>waiters := Fifo_Unshift (waiters s1) ch, waitersMu := Some t\<rparr>)))"
  \<comment> \<open>lines 138-147: start the load goroutine under the cap, unlock both mutexes\<close>
| "thread_step s t c (Take_spawn ctx load ch) =
     (let s1 = (if ctxs s ctx = None \<and> (MaxItems s = 0 \<or> loads s <s MaxItems s)
                then s\<lparr>loads := loads s + 1, threads := threads s @ [Go_load load]\<rparr>
                else s)
      in Some (goto t (Take_select ctx ch) (s1\<lparr>waitersMu := None, readyMu := None\<rparr>)))"
  \<comment> \<open>lines 150-151, 157-158: the select\<close>
| "thread_step s t c (Take_select ctx ch) =
     (case c of
        SelRecv \<Rightarrow>
          (case chan_recv (chans s ch) of
             None \<Rightarrow> None
           | Some (r, c') \<Rightarrow> Some (goto t (Take_recvd ch r) (s\<lparr>chans := (chans s)(ch := c')\<rparr>)))
      | SelDone \<Rightarrow>
          (case ctxs s ctx of
             None \<Rightarrow> None
           | Some cause \<Rightarrow> Some (goto t (handleCancel_delete ch cause) s))
      | _ \<Rightarrow> None)"
  \<comment> \<open>lines 152-156\<close>
| "thread_step s t c (Take_recvd ch r) =
     Some (goto t (Returned (TakeRet (case r of None \<Rightarrow> Inl ErrClosed | Some v \<Rightarrow> Inr v)))
            (chanPool_Put ch s))"
  \<comment> \<open>handleCancel, lines 233-237 (testHookWaiterCanceled is nil outside the tests)\<close>
| "thread_step s t c (handleCancel_delete ch e) =
     (if waitersMu s \<noteq> None then None
      else Some (goto t (handleCancel_recheck ch e)
                  (s\<lparr>waiters := Fifo_DeleteFunc (waiters s) (\<lambda>wch. ch = wch)\<rparr>)))"
  \<comment> \<open>handleCancel, lines 239-246: \<open>case v := <-ch\<close> does not look at ok\<close>
| "thread_step s t c (handleCancel_recheck ch e) =
     (case chan_recv (chans s ch) of
        Some (r, c') \<Rightarrow>
          Some (goto t (Take_release ch (Inr (case r of Some v \<Rightarrow> v | None \<Rightarrow> 0)))
                 (s\<lparr>chans := (chans s)(ch := c')\<rparr>))
      | None \<Rightarrow> Some (goto t (Take_release ch (Inl e)) s))"
  \<comment> \<open>lines 160-161\<close>
| "thread_step s t c (Take_release ch r) =
     Some (goto t (Returned (TakeRet r)) (chanPool_Put ch s))"
  \<comment> \<open>TryTake, lines 169-171\<close>
| "thread_step s t c TryTake_entry =
     (if readyMu s \<noteq> None then None
      else case Lifo_Pop (ready s) of
             Some (v, a) \<Rightarrow> Some (goto t (Returned (TryTakeRet v True)) (s\<lparr>ready := a\<rparr>))
           | None \<Rightarrow> Some (goto t (Returned (TryTakeRet 0 False)) s))"
  \<comment> \<open>Put, lines 180-182\<close>
| "thread_step s t c (Put_entry v) =
     (if closed s then Some (goto t (Returned (PutRet False)) s)
      else Some (goto t (Put_handoff1 v) s))"
  \<comment> \<open>line 200, maybeHandoff lines 185-187\<close>
| "thread_step s t c (Put_handoff1 v) =
     (case maybeHandoff_shift s of
        None \<Rightarrow> None
      | Some (Some ch, s1) \<Rightarrow> Some (goto t (Put_send1 ch v) s1)
      | Some (None, s1) \<Rightarrow> Some (goto t (Put_lock v) s1))"
  \<comment> \<open>maybeHandoff lines 188-195, line 201\<close>
| "thread_step s t c (Put_send1 ch v) =
     (case maybeHandoff_send s ch v of
        Inl msg \<Rightarrow> Some (goto t (Panicked msg) s)
      | Inr s1 \<Rightarrow> Some (goto t (Returned (PutRet True)) s1))"
  \<comment> \<open>lines 204-209\<close>
| "thread_step s t c (Put_lock v) =
     (if readyMu s \<noteq> None then None
      else if closed s then Some (goto t (Returned (PutRet False)) s)
      else Some (goto t (Put_handoff2 v) (s\<lparr>readyMu := Some t\<rparr>)))"
  \<comment> \<open>line 213, maybeHandoff lines 185-187\<close>
| "thread_step s t c (Put_handoff2 v) =
     (case maybeHandoff_shift s of
        None \<Rightarrow> None
      | Some (Some ch, s1) \<Rightarrow> Some (goto t (Put_send2 ch v) s1)
      | Some (None, s1) \<Rightarrow> Some (goto t (Put_push v) s1))"
  \<comment> \<open>maybeHandoff lines 188-195, lines 214-215\<close>
| "thread_step s t c (Put_send2 ch v) =
     (case maybeHandoff_send s ch v of
        Inl msg \<Rightarrow> Some (goto t (Panicked msg) s)
      | Inr s1 \<Rightarrow> Some (goto t (Returned (PutRet True)) (s1\<lparr>readyMu := None\<rparr>)))"
  \<comment> \<open>lines 218-220\<close>
| "thread_step s t c (Put_push v) =
     Some (goto t (Returned (PutRet True)) (s\<lparr>ready := Lifo_Push (ready s) v, readyMu := None\<rparr>))"
  \<comment> \<open>Close, lines 70-73\<close>
| "thread_step s t c Close_entry =
     (if closed s then Some (goto t (Returned CloseRet) s)
      else Some (goto t Close_lock (s\<lparr>closed := True\<rparr>)))"
  \<comment> \<open>line 75\<close>
| "thread_step s t c Close_lock =
     (if waitersMu s \<noteq> None then None
      else Some (goto t Close_loop (s\<lparr>waitersMu := Some t\<rparr>)))"
  \<comment> \<open>lines 79-86: one iteration of the loop, or its exit; the deferred unlock of line 76
      runs at the exit and when \<open>close\<close> panics\<close>
| "thread_step s t c Close_loop =
     (case Fifo_Shift (waiters s) of
        None \<Rightarrow> Some (goto t (Returned CloseRet) (s\<lparr>waitersMu := None\<rparr>))
      | Some (ch, a) \<Rightarrow>
          (case chan_close (chans s ch) of
             None \<Rightarrow>
               Some (goto t (Panicked ''close of closed channel'')
                      (s\<lparr>waiters := a, waitersMu := None\<rparr>))
           | Some c' \<Rightarrow> Some (goto t Close_loop (s\<lparr>waiters := a, chans := (chans s)(ch := c')\<rparr>))))"
  \<comment> \<open>line 143, the goroutine \<open>go func() { p.Put(load()) }()\<close>: the call of load\<close>
| "thread_step s t c (Go_load load) =
     (case load of
        LoadNil \<Rightarrow> Some (goto t (Put_entry 0) (s\<lparr>calls := Suc (calls s)\<rparr>))
      | LoadFn \<Rightarrow>
          (case c of
             LoadRet v \<Rightarrow> Some (goto t (Put_entry v) (s\<lparr>calls := Suc (calls s)\<rparr>))
           | _ \<Rightarrow> None))"
| "thread_step s t c (Returned r) = None"
| "thread_step s t c (Panicked msg) = None"

text \<open>
  What happens to the pool from outside a goroutine's step: a caller starts a method on a
  new goroutine, a context is cancelled with a cause, or the scheduler lets goroutine
  \<open>t\<close> take its next step.
\<close>

datatype 'a call = CallTake nat loadfn | CallTryTake | CallPut 'a | CallClose

fun start :: "'a call \<Rightarrow> 'a thread" where
  "start (CallTake ctx load) = Take_entry ctx load"
| "start CallTryTake = TryTake_entry"
| "start (CallPut v) = Put_entry v"
| "start CallClose = Close_entry"

datatype 'a action = Call "'a call" | Cancel nat err | Step nat "'a choice"

fun step :: "'a::zero state \<Rightarrow> 'a action \<Rightarrow> 'a state option" where
  "step s (Call op) = Some (s\<lparr>threads := threads s @ [start op]\<rparr>)"
| "step s (Cancel ctx cause) =
     (if ctxs s ctx = None then Some (s\<lparr>ctxs := (ctxs s)(ctx := Some cause)\<rparr>) else None)"
| "step s (Step t c) =
     (if t < length (threads s) then thread_step s t c (threads s ! t) else None)"

fun exec :: "'a::zero state \<Rightarrow> 'a action list \<Rightarrow> 'a state option" where
  "exec s [] = Some s"
| "exec s (a # as) = (case step s a of None \<Rightarrow> None | Some s' \<Rightarrow> exec s' as)"

section \<open>Observations on states and executions\<close>

text \<open>The goroutines that run Put, and the load goroutines that have not called load yet.\<close>

fun is_Put :: "'a thread \<Rightarrow> bool" where
  "is_Put (Put_entry v) = True"
| "is_Put (Put_handoff1 v) = True"
| "is_Put (Put_send1 ch v) = True"
| "is_Put (Put_lock v) = True"
| "is_Put (Put_handoff2 v) = True"
| "is_Put (Put_send2 ch v) = True"
| "is_Put (Put_push v) = True"
| "is_Put _ = False"

fun is_Go_load :: "'a thread \<Rightarrow> bool" where
  "is_Go_load (Go_load l) = True"
| "is_Go_load _ = False"

definition pending_loads :: "'a state \<Rightarrow> nat" where
  "pending_loads s = length (filter is_Go_load (threads s))"

text \<open>
  The invariant behind the cap on construction: \<open>loads\<close> stays between 0 and \<open>MaxItems\<close>,
  and every increment of \<open>loads\<close> is one call of load, made or still to be made.
\<close>

definition loads_inv :: "'a state \<Rightarrow> bool" where
  "loads_inv s \<longleftrightarrow>
     0 \<le> sint (loads s) \<and> sint (loads s) \<le> sint (MaxItems s) \<and>
     int (calls s) + int (pending_loads s) = sint (loads s)"

definition waiters_inv :: "'a state \<Rightarrow> bool" where
  "waiters_inv s \<longleftrightarrow> int (length (waiters s)) \<le> sint (MaxWaiters s)"

text \<open>The channel store after \<open>close(ch)\<close> for every channel \<open>ch\<close> of the list \<open>a\<close>.\<close>

definition close_all :: "nat list \<Rightarrow> (nat \<Rightarrow> 'a chan) \<Rightarrow> nat \<Rightarrow> 'a chan" where
  "close_all a cs = (\<lambda>ch. if ch \<in> set a then (cs ch)\<lparr>chclosed := True\<rparr> else cs ch)"

text \<open>
  What a step did to the waiter queue, read off the goroutine before and after it. A
  goroutine that goes from the registration step of Take to \<open>Take_spawn ctx load ch\<close> has
  registered \<open>ch\<close>; a Put that goes from \<open>maybeHandoff\<close>'s Shift to the send of \<open>v\<close> on
  \<open>ch\<close> has taken \<open>ch\<close> for its value \<open>v\<close>; \<open>handleCancel\<close> and the loop of Close remove
  waiters without serving them.
\<close>

definition registers :: "'a thread \<Rightarrow> 'a thread \<Rightarrow> nat list" where
  "registers th th' =
     (case th of
        Take_register ctx load \<Rightarrow> (case th' of Take_spawn ctx' load' ch \<Rightarrow> [ch] | _ \<Rightarrow> [])
      | _ \<Rightarrow> [])"

definition hands_off :: "'a thread \<Rightarrow> 'a thread \<Rightarrow> (nat \<times> 'a) list" where
  "hands_off th th' =
     (case th of
        Put_handoff1 v \<Rightarrow> (case th' of Put_send1 ch v' \<Rightarrow> [(ch, v)] | _ \<Rightarrow> [])
      | Put_handoff2 v \<Rightarrow> (case th' of Put_send2 ch v' \<Rightarrow> [(ch, v)] | _ \<Rightarrow> [])
      | _ \<Rightarrow> [])"

definition removes :: "'a thread \<Rightarrow> bool" where
  "removes th = (case th of handleCancel_delete ch e \<Rightarrow> True | Close_loop \<Rightarrow> True | _ \<Rightarrow> False)"

definition registered :: "'a state \<Rightarrow> 'a action \<Rightarrow> 'a state \<Rightarrow> nat list" where
  "registered s a s' =
     (case a of Step t c \<Rightarrow> registers (threads s ! t) (threads s' ! t) | _ \<Rightarrow> [])"

definition handed :: "'a state \<Rightarrow> 'a action \<Rightarrow> 'a state \<Rightarrow> (nat \<times> 'a) list" where
  "handed s a s' =
     (case a of Step t c \<Rightarrow> hands_off (threads s ! t) (threads s' ! t) | _ \<Rightarrow> [])"

definition removal :: "'a state \<Rightarrow> 'a action \<Rightarrow> bool" where
  "removal s a = (case a of Step t c \<Rightarrow> removes (threads s ! t) | _ \<Rightarrow> False)"

text \<open>
  Along an execution: the channels registered, in order; the handoffs (channel shifted,
  value of the Put), in the order of the Shifts; and whether the execution is free of
  removals by \<open>handleCancel\<close> and Close.
\<close>

fun registrations :: "'a::zero state \<Rightarrow> 'a action list \<Rightarrow> nat list" where
  "registrations s [] = []"
| "registrations s (a # as) =
     (case step s a of None \<Rightarrow> [] | Some s' \<Rightarrow> registered s a s' @ registrations s' as)"

fun handoffs :: "'a::zero state \<Rightarrow> 'a action list \<Rightarrow> (nat \<times> 'a) list" where
  "handoffs s [] = []"
| "handoffs s (a # as) =
     (case step s a of None \<Rightarrow> [] | Some s' \<Rightarrow> handed s a s' @ handoffs s' as)"

fun no_removal :: "'a::zero state \<Rightarrow> 'a action list \<Rightarrow> bool" where
  "no_removal s [] = True"
| "no_removal s (a # as) =
     (\<not> removal s a \<and> (case step s a of None \<Rightarrow> True | Some s' \<Rightarrow> no_removal s' as))"

section \<open>Schedules and states used as concrete inputs\<close>

text \<open>
  A schedule on the zero value of \<open>List[int]\<close>. Goroutine 0 calls \<open>Take(ctx1, nil)\<close> and
  waits on channel 0; its load goroutine (goroutine 1) runs Put up to the Shift of
  \<open>maybeHandoff\<close> and is preempted before the send; \<open>ctx1\<close> is cancelled, goroutine 0
  runs \<open>handleCancel\<close>, finds its channel empty, returns the error and puts the channel
  into \<open>chanPool\<close>; goroutine 1 then sends into that channel. Goroutine 2 calls
  \<open>Take(ctx2, nil)\<close>, gets the same channel from \<open>chanPool\<close> and registers it; its load
  goroutine (goroutine 3) runs Put, shifts the channel and sends.
\<close>

definition stale_cell_schedule :: "int action list" where
  "stale_cell_schedule =
     [Call (CallTake 1 LoadNil),
      Step 0 Default, Step 0 Default, Step 0 Default, Step 0 PoolNil, Step 0 Default,
      Step 1 Default, Step 1 Default, Step 1 Default,
      Cancel 1 Canceled,
      Step 0 SelDone, Step 0 Default, Step 0 Default, Step 0 Default,
      Step 1 Default,
      Call (CallTake 2 LoadNil),
      Step 2 Default, Step 2 Default, Step 2 Default, Step 2 (PoolGet 0), Step 2 Default,
      Step 3 Default, Step 3 Default, Step 3 Default, Step 3 Default]"

text \<open>
  A schedule on the zero value of \<open>List[int]\<close>. Goroutine 0 calls \<open>Take(ctx1, load)\<close> and
  waits on channel 0 (its load goroutine, goroutine 1, has not run yet); goroutine 2
  calls Close, which closes channel 0; \<open>ctx1\<close> is cancelled; the select of goroutine 0
  takes the \<open>ctx.Done()\<close> case and runs \<open>handleCancel\<close>.
\<close>

definition close_cancel_schedule :: "int action list" where
  "close_cancel_schedule =
     [Call (CallTake 1 LoadFn),
      Step 0 Default, Step 0 Default, Step 0 Default, Step 0 PoolNil, Step 0 Default,
      Call CallClose,
      Step 2 Default, Step 2 Default, Step 2 Default, Step 2 Default,
      Cancel 1 Canceled,
      Step 0 SelDone, Step 0 Default, Step 0 Default, Step 0 Default]"

text \<open>
  The zero value of \<open>List[int]\<close> after \<open>Put(7)\<close> and Close have returned and \<open>ctx1\<close> has
  been cancelled, with goroutine 2 about to run \<open>Take(ctx1, nil)\<close>: a closed pool with one
  ready item and a cancelled context.
\<close>

definition closed_with_ready_schedule :: "int action list" where
  "closed_with_ready_schedule =
     [Call (CallPut 7),
      Step 0 Default, Step 0 Default, Step 0 Default, Step 0 Default, Step 0 Default,
      Call CallClose, Step 1 Default, Step 1 Default, Step 1 Default,
      Cancel 1 Canceled, Call (CallTake 1 LoadNil)]"

definition closed_with_ready :: "int state" where
  "closed_with_ready =
     (init 0 0)\<lparr>ready := [7], closed := True, ctxs := (\<lambda>_. None)(1 := Some Canceled),
               threads := [Returned (PutRet True), Returned CloseRet, Take_entry 1 LoadNil]\<rparr>"

text \<open>
  \<open>&List[int]{MaxItems: 2, MaxWaiters: 3}\<close> after \<open>Put(7)\<close>, \<open>Put(8)\<close> and Close have
  returned, with goroutine 3 about to run TryTake.
\<close>

definition closed_with_two_ready_schedule :: "int action list" where
  "closed_with_two_ready_schedule =
     [Call (CallPut 7),
      Step 0 Default, Step 0 Default, Step 0 Default, Step 0 Default, Step 0 Default,
      Call (CallPut 8),
      Step 1 Default, Step 1 Default, Step 1 Default, Step 1 Default, Step 1 Default,
      Call CallClose, Step 2 Default, Step 2 Default, Step 2 Default,
      Call CallTryTake]"

definition closed_with_two_ready :: "int state" where
  "closed_with_two_ready =
     (init 2 3)\<lparr>ready := [7, 8], closed := True,
               threads := [Returned (PutRet True), Returned (PutRet True), Returned CloseRet,
                           TryTake_entry]\<rparr>"

text \<open>
  \<open>&List[int]{MaxItems: 2, MaxWaiters: 1}\<close> while goroutine 0 runs \<open>Take(ctx1, nil)\<close>:
  after it has registered channel 0 and before it starts the load goroutine
  (\<open>registering\<close>), once it waits in its select (\<open>one_waiter\<close>, reached from the initial
  state by \<open>one_waiter_schedule\<close>), and after its load goroutine has called load
  (\<open>one_loaded\<close>).
\<close>

definition one_waiter_schedule :: "int action list" where
  "one_waiter_schedule =
     [Call (CallTake 1 LoadNil),
      Step 0 Default, Step 0 Default, Step 0 Default, Step 0 PoolNil, Step 0 Default]"

definition registering :: "int state" where
  "registering =
     (init 2 1)\<lparr>readyMu := Some 0, waitersMu := Some 0, waiters := [0], nchans := 1,
               threads := [Take_spawn 1 LoadNil 0]\<rparr>"

definition one_waiter :: "int state" where
  "one_waiter =
     (init 2 1)\<lparr>loads := 1, waiters := [0], nchans := 1,
               threads := [Take_select 1 0, Go_load LoadNil]\<rparr>"

definition one_loaded :: "int state" where
  "one_loaded =
     (init 2 1)\<lparr>loads := 1, waiters := [0], nchans := 1, calls := 1,
               threads := [Take_select 1 0, Put_entry 0]\<rparr>"

text \<open>
  The zero value of \<open>List[int]\<close> with two waiting calls of Take (goroutines 0 and 2, on
  the channels 0 and 1) whose load goroutines (1 and 3) have not run yet, reached by
  \<open>two_waiters_schedule\<close>. In
  \<open>two_handoffs\<close> the load goroutines return 10 and 20 and run Put up to the Shift of
  \<open>maybeHandoff\<close>, which leads to \<open>two_shifted\<close>.
\<close>

definition two_waiters_schedule :: "int action list" where
  "two_waiters_schedule =
     [Call (CallTake 1 LoadFn),
      Step 0 Default, Step 0 Default, Step 0 Default, Step 0 PoolNil, Step 0 Default,
      Call (CallTake 2 LoadFn),
      Step 2 Default, Step 2 Default, Step 2 Default, Step 2 PoolNil, Step 2 Default]"

definition two_waiters :: "int state" where
  "two_waiters =
     (init 0 0)\<lparr>loads := 2, waiters := [0, 1], nchans := 2,
               threads := [Take_select 1 0, Go_load LoadFn, Take_select 2 1, Go_load LoadFn]\<rparr>"

definition two_handoffs :: "int action list" where
  "two_handoffs =
     [Step 1 (LoadRet 10), Step 1 Default, Step 1 Default,
      Step 3 (LoadRet 20), Step 3 Default, Step 3 Default]"

definition two_shifted :: "int state" where
  "two_shifted =
     (init 0 0)\<lparr>loads := 2, waiters := [], nchans := 2, calls := 2,
               threads := [Take_select 1 0, Put_send1 0 10, Take_select 2 1, Put_send1 1 20]\<rparr>"

text \<open>\<open>two_waiters\<close> after a call of Close on goroutine 4 has run to its end.\<close>

definition two_closed :: "int state" where
  "two_closed =
     two_waiters\<lparr>closed := True, waiters := [], chans := close_all [0, 1] (chans two_waiters),
                 threads := threads two_waiters @ [Returned CloseRet]\<rparr>"

text \<open>
  \<open>&List[int]{MaxItems: 2, MaxWaiters: 1}\<close> with goroutine 0 in \<open>Put(5)\<close>: before the
  second handoff attempt (reached by \<open>second_attempt_schedule\<close>), before the push, and
  after it.
\<close>

definition second_attempt_schedule :: "int action list" where
  "second_attempt_schedule =
     [Call (CallPut 5), Step 0 Default, Step 0 Default, Step 0 Default]"

definition second_attempt :: "int state" where
  "second_attempt = (init 2 1)\<lparr>readyMu := Some 0, threads := [Put_handoff2 5]\<rparr>"

definition pushing :: "int state" where
  "pushing = (init 2 1)\<lparr>readyMu := Some 0, threads := [Put_push 5]\<rparr>"

definition pushed :: "int state" where
  "pushed = (init 2 1)\<lparr>ready := [5], threads := [Returned (PutRet True)]\<rparr>"

text \<open>
  The first half of \<open>TestList\<close> (list_test.go, lines 14-70) as a schedule on
  \<open>&List[int]{MaxItems: 2, MaxWaiters: 3}\<close>, with the load function of the test, which
  returns 0 at its first call and 1 at its second: \<open>checkTake(0)\<close> (goroutine 0, load
  goroutine 1), \<open>checkPutOK(0)\<close> (goroutine 2), \<open>checkTake(0)\<close> (goroutine 3),
  \<open>checkTake(1)\<close> (goroutine 4, load goroutine 5), three calls of Take that wait
  (goroutines 6, 7, 8), \<open>checkTake(-1)\<close> (goroutine 9), and \<open>checkPutOK(0)\<close> (goroutine
  10), which wakes goroutine 6.
\<close>

definition TestList_schedule :: "int action list" where
  "TestList_schedule =
     [Call (CallTake 0 LoadFn),
      Step 0 Default, Step 0 Default, Step 0 Default, Step 0 PoolNil, Step 0 Default,
      Step 1 (LoadRet 0), Step 1 Default, Step 1 Default, Step 1 Default,
      Step 0 SelRecv, Step 0 Default,
      Call (CallPut 0),
      Step 2 Default, Step 2 Default, Step 2 Default, Step 2 Default, Step 2 Default,
      Call (CallTake 0 LoadFn), Step 3 Default,
      Call (CallTake 0 LoadFn),
      Step 4 Default, Step 4 Default, Step 4 Default, Step 4 (PoolGet 0), Step 4 Default,
      Step 5 (LoadRet 1), Step 5 Default, Step 5 Default, Step 5 Default,
      Step 4 SelRecv, Step 4 Default,
      Call (CallTake 0 LoadFn),
      Step 6 Default, Step 6 Default, Step 6 Default, Step 6 (PoolGet 0), Step 6 Default,
      Call (CallTake 0 LoadFn),
      Step 7 Default, Step 7 Default, Step 7 Default, Step 7 PoolNil, Step 7 Default,
      Call (CallTake 0 LoadFn),
      Step 8 Default, Step 8 Default, Step 8 Default, Step 8 PoolNil, Step 8 Default,
      Call (CallTake 0 LoadFn),
      Step 9 Default, Step 9 Default, Step 9 Default, Step 9 PoolNil,
      Call (CallPut 0),
      Step 10 Default, Step 10 Default, Step 10 Default,
      Step 6 SelRecv, Step 6 Default]"

text \<open>
  \<open>stale_cell_schedule\<close> up to the point where channel 0 sits in \<open>chanPool\<close> with the
  value 0 in it, continued on the still open pool: goroutine 2 calls \<open>Take(ctx2, load)\<close>
  and registers the new channel 1; goroutine 4 calls \<open>Take(ctx3, load)\<close>, gets channel 0
  from \<open>chanPool\<close> and registers it behind channel 1; its select receives the value 0
  that is in the channel and it returns. Then the two load goroutines (3 and 5) return 10
  and 20 and run Put to the end, and goroutine 2 receives.
\<close>

definition fifo_violation_schedule :: "int action list" where
  "fifo_violation_schedule =
     take 15 stale_cell_schedule @
     [Call (CallTake 2 LoadFn),
      Step 2 Default, Step 2 Default, Step 2 Default, Step 2 PoolNil, Step 2 Default,
      Call (CallTake 3 LoadFn),
      Step 4 Default, Step 4 Default, Step 4 Default, Step 4 (PoolGet 0), Step 4 Default,
      Step 4 SelRecv, Step 4 Default,
      Step 3 (LoadRet 10), Step 3 Default, Step 3 Default, Step 3 Default,
      Step 2 SelRecv, Step 2 Default,
      Step 5 (LoadRet 20), Step 5 Default, Step 5 Default, Step 5 Default]"

text \<open>
  The same prefix, continued on the still open pool: goroutine 2 calls \<open>Take(ctx2, nil)\<close>,
  gets channel 0 from \<open>chanPool\<close>, registers it, receives the value in it and returns,
  which puts channel 0 into \<open>chanPool\<close> while it is still queued; goroutine 4 calls
  \<open>Take(ctx3, nil)\<close>, gets channel 0 again, registers it and waits. Then goroutine 6 calls
  Close.
\<close>

definition double_close_schedule :: "int action list" where
  "double_close_schedule =
     take 15 stale_cell_schedule @
     [Call (CallTake 2 LoadNil),
      Step 2 Default, Step 2 Default, Step 2 Default, Step 2 (PoolGet 0), Step 2 Default,
      Step 2 SelRecv, Step 2 Default,
      Call (CallTake 3 LoadNil),
      Step 4 Default, Step 4 Default, Step 4 Default, Step 4 (PoolGet 0), Step 4 Default,
      Call CallClose,
      Step 6 Default, Step 6 Default, Step 6 Default, Step 6 Default]"

text \<open>
  A schedule on the zero value of \<open>List[int]\<close>. Goroutine 0 calls \<open>Take(ctx1, nil)\<close> and
  has read \<open>closed\<close> as false (line 112) when goroutine 1 calls Close, which runs to its
  end on the empty waiter queue. Goroutine 0 then goes on: it registers its channel and
  starts its load goroutine (goroutine 2), whose Put finds the pool closed.
\<close>

definition late_register_schedule :: "int action list" where
  "late_register_schedule =
     [Call (CallTake 1 LoadNil), Step 0 Default, Step 0 Default,
      Call CallClose, Step 1 Default, Step 1 Default, Step 1 Default,
      Step 0 Default, Step 0 PoolNil, Step 0 Default,
      Step 2 Default, Step 2 Default]"

text \<open>
  The first 21 actions of \<open>stale_cell_schedule\<close> (the second Take has registered channel
  0 and waits; its load goroutine has not run), followed by a call \<open>Put(9)\<close> on goroutine
  4, run alone.
\<close>

definition full_head_schedule :: "int action list" where
  "full_head_schedule =
     take 21 stale_cell_schedule @
     [Call (CallPut 9), Step 4 Default, Step 4 Default, Step 4 Default]"

text \<open>
  \<open>&List[int]{MaxItems: 2, MaxWaiters: 3}\<close> after \<open>Put(1)\<close>, \<open>Put(2)\<close> and \<open>Put(3)\<close> have
  returned: three ready items.
\<close>

definition three_ready_schedule :: "int action list" where
  "three_ready_schedule =
     [Call (CallPut 1),
      Step 0 Default, Step 0 Default, Step 0 Default, Step 0 Default, Step 0 Default,
      Call (CallPut 2),
      Step 1 Default, Step 1 Default, Step 1 Default, Step 1 Default, Step 1 Default,
      Call (CallPut 3),
      Step 2 Default, Step 2 Default, Step 2 Default, Step 2 Default, Step 2 Default]"

definition three_ready :: "int state" where
  "three_ready =
     (init 2 3)\<lparr>ready := [1, 2, 3],
               threads := [Returned (PutRet True), Returned (PutRet True), Returned (PutRet True)]\<rparr>"

section \<open>Unfolding the model\<close>

lemmas model_defs =
  goto_def chanPool_Get_def chanPool_Put_def maybeHandoff_shift_def maybeHandoff_send_def
  chan_send_def chan_recv_def chan_close_def make_chan_def
  Fifo_Unshift_def Fifo_DeleteFunc_def Fifo_Len_def Lifo_Pop_def Lifo_Push_def

text \<open>The states used as concrete inputs below are states of executions.\<close>

lemma closed_with_ready_reachable:
  "exec (init 0 0) closed_with_ready_schedule = Some closed_with_ready"
  by (simp add: closed_with_ready_schedule_def closed_with_ready_def init_def model_defs)

lemma closed_with_two_ready_reachable:
  "exec (init 2 3) closed_with_two_ready_schedule = Some closed_with_two_ready"
  by (simp add: closed_with_two_ready_schedule_def closed_with_two_ready_def init_def model_defs)

lemma two_waiters_reachable:
  "exec (init 0 0) two_waiters_schedule = Some two_waiters"
  by (simp add: two_waiters_schedule_def two_waiters_def init_def model_defs fun_eq_iff)

lemma three_ready_reachable:
  "exec (init 2 3) three_ready_schedule = Some three_ready"
  by (simp add: three_ready_schedule_def three_ready_def init_def model_defs)

lemma second_attempt_reachable:
  "exec (init 2 1) second_attempt_schedule = Some second_attempt"
  by (simp add: second_attempt_schedule_def second_attempt_def init_def model_defs)

section \<open>The model runs the repository's test\<close>

text \<open>
  On \<open>TestList_schedule\<close> the model returns what \<open>TestList\<close> checks: the calls of Take
  return 0, 0 and 1, the call beyond MaxWaiters returns \<open>ErrMaxWaiters\<close>, the load function
  has been called twice, and the first of the three waiters receives the item that was
  put back.
\<close>

lemma TestList_scenario:
  "map_option
     (\<lambda>s. (threads s ! 0, threads s ! 3, threads s ! 4, threads s ! 9, threads s ! 6,
           threads s ! 10, loads s, calls s, waiters s))
     (exec (init 2 3) TestList_schedule) =
   Some (Returned (TakeRet (Inr 0)), Returned (TakeRet (Inr 0)), Returned (TakeRet (Inr 1)),
         Returned (TakeRet (Inl ErrMaxWaiters)), Returned (TakeRet (Inr 0)),
         Returned (PutRet True), 2, 2, [1, 2])"
  unfolding TestList_schedule_def by code_simp

section \<open>Take serves a ready item first\<close>

text \<open>
  Claim C3. When the ready stack is not empty, the first step of Take (lock readyMu, pop)
  pops the top of the ready stack and returns it with a nil error. Nothing else of the
  state changes and neither \<open>closed\<close> nor the context is read: the result is the same for
  every value of \<open>closed s\<close> and \<open>ctxs s ctx\<close>.
\<close>

theorem Take_ready_item_first:
  assumes "t < length (threads s)" and "threads s ! t = Take_entry ctx load"
    and "readyMu s = None" and "ready s \<noteq> []"
  shows "step s (Step t c) =
           Some (s\<lparr>ready := butlast (ready s),
                   threads := (threads s)[t := Returned (TakeRet (Inr (last (ready s))))]\<rparr>)"
  using assms by (simp add: Lifo_Pop_def goto_def)

theorem Take_ready_item_first_witness:
  "2 < length (threads closed_with_ready) \<and>
   threads closed_with_ready ! 2 = Take_entry 1 LoadNil \<and>
   readyMu closed_with_ready = None \<and> ready closed_with_ready \<noteq> [] \<and>
   closed closed_with_ready \<and> ctxs closed_with_ready 1 = Some Canceled \<and>
   step closed_with_ready (Step 2 Default) =
     Some (closed_with_ready\<lparr>ready := [],
             threads := [Returned (PutRet True), Returned CloseRet, Returned (TakeRet (Inr 7))]\<rparr>)"
  using Take_ready_item_first [of 2 closed_with_ready 1 LoadNil Default]
  by (simp add: closed_with_ready_def init_def model_defs)

section \<open>The near miss of handleCancel and a closed channel\<close>

text \<open>
  Claim C6, at an input where it fails. In \<open>close_cancel_schedule\<close> no value is ever
  written into the channel of the waiting Take: Close closes it, and the context is
  cancelled. The select of Take takes the \<open>ctx.Done()\<close> case; \<open>handleCancel\<close> removes
  nothing (Close has shifted the channel already), and its receive is ready on the closed
  channel. Take returns the zero value with a nil error, which is neither a value that
  arrived nor the cancellation cause.
\<close>

theorem handleCancel_closed_channel_returns_zero_nil:
  "map_option (\<lambda>s. (threads s ! 0, closed s, ctxs s 1, waiters s, buf (chans s 0)))
     (exec (init 0 0) close_cancel_schedule) =
     Some (Returned (TakeRet (Inr 0)), True, Some Canceled, [], None)"
  unfolding close_cancel_schedule_def by code_simp

section \<open>The panic of maybeHandoff is reachable\<close>

text \<open>
  Claim C8, at an input where it fails. \<open>stale_cell_schedule\<close> is an execution of two
  calls \<open>Take(ctx, nil)\<close> on the zero value of List, the first one cancelled. After its
  first 15 actions the cancelled Take has returned the cancellation error, its channel 0
  is in \<open>chanPool\<close>, and the value 0 that Put sent afterwards sits in that channel. After
  21 actions the second Take has registered channel 0, which still holds that value. The
  execution ends in the default branch of the select of \<open>maybeHandoff\<close>: the channel that
  Put shifted from the head of the waiter queue is full.
\<close>

theorem maybeHandoff_panic_reachable:
  "map_option (\<lambda>s. (threads s ! 0, threads s ! 1, chanPool s, buf (chans s 0)))
     (exec (init 0 0) (take 15 stale_cell_schedule)) =
     Some (Returned (TakeRet (Inl Canceled)), Returned (PutRet True), [0], Some 0) \<and>
   map_option (\<lambda>s. (waiters s, buf (chans s 0), closed s))
     (exec (init 0 0) (take 21 stale_cell_schedule)) = Some ([0], Some 0, False) \<and>
   map_option (\<lambda>s. threads s ! 3) (exec (init 0 0) stale_cell_schedule) =
     Some (Panicked ''waiter: waiter channel full (this is a bug in waitlist)'')"
  unfolding stale_cell_schedule_def by code_simp

section \<open>TryTake\<close>

text \<open>
  Claim C9. TryTake is one step (lock readyMu, pop, unlock). It returns the top of the
  ready stack and true, or the zero value and false when the stack is empty, whatever
  \<open>closed\<close> is. It leaves the waiter queue, \<open>loads\<close>, \<open>closed\<close>, the channels and
  \<open>chanPool\<close> as they are, starts no goroutine (the list of goroutines keeps its length)
  and calls no load function.
\<close>

theorem TryTake_only_pops_ready:
  assumes "t < length (threads s)" and "threads s ! t = TryTake_entry" and "readyMu s = None"
  shows "\<exists>s'. step s (Step t c) = Some s' \<and>
           threads s' = (threads s)[t := Returned (if ready s = [] then TryTakeRet 0 False
                                                    else TryTakeRet (last (ready s)) True)] \<and>
           ready s' = butlast (ready s) \<and>
           waiters s' = waiters s \<and> loads s' = loads s \<and> closed s' = closed s \<and>
           calls s' = calls s \<and> chans s' = chans s \<and> chanPool s' = chanPool s \<and>
           readyMu s' = None \<and> waitersMu s' = waitersMu s"
  using assms by (simp add: Lifo_Pop_def goto_def)

theorem TryTake_only_pops_ready_witness:
  "3 < length (threads closed_with_two_ready) \<and>
   threads closed_with_two_ready ! 3 = TryTake_entry \<and>
   readyMu closed_with_two_ready = None \<and> closed closed_with_two_ready \<and>
   (\<exists>s'. step closed_with_two_ready (Step 3 Default) = Some s' \<and>
      threads s' = [Returned (PutRet True), Returned (PutRet True), Returned CloseRet,
                    Returned (TryTakeRet 8 True)] \<and>
      ready s' = [7] \<and> waiters s' = [] \<and> loads s' = 0 \<and> closed s' \<and> calls s' = 0)"
  using TryTake_only_pops_ready [of 3 closed_with_two_ready Default]
  by (simp add: closed_with_two_ready_def init_def model_defs)

section \<open>Ready items come back in LIFO order\<close>

text \<open>
  Claim C10. On a pool that is not closed, with an empty waiter queue and both mutexes
  free, \<open>Put(v)\<close> run to its end and followed by TryTake gives \<open>(v, true)\<close>: Put returns
  true, TryTake returns the item just put, and the pool is as it was before.
\<close>

theorem Put_then_TryTake:
  assumes "\<not> closed s" and "waiters s = []" and "readyMu s = None" and "waitersMu s = None"
    and "n = length (threads s)"
  shows "exec s [Call (CallPut v), Step n c1, Step n c2, Step n c3, Step n c4, Step n c5,
                 Call CallTryTake, Step (Suc n) c6] =
           Some (s\<lparr>threads := threads s @ [Returned (PutRet True), Returned (TryTakeRet v True)]\<rparr>)"
  using assms by (cases s) (simp add: model_defs nth_append list_update_append)

theorem Put_then_TryTake_witness:
  "\<not> closed three_ready \<and> waiters three_ready = [] \<and>
   readyMu three_ready = None \<and> waitersMu three_ready = None \<and>
   3 = length (threads three_ready) \<and> ready three_ready = [1, 2, 3] \<and>
   exec three_ready
     [Call (CallPut 5), Step 3 Default, Step 3 Default, Step 3 Default, Step 3 Default,
      Step 3 Default, Call CallTryTake, Step (Suc 3) Default] =
     Some (three_ready\<lparr>threads := threads three_ready @
             [Returned (PutRet True), Returned (TryTakeRet 5 True)]\<rparr>)"
  using Put_then_TryTake [of three_ready 3 5 Default Default Default Default Default Default]
  by (simp add: three_ready_def init_def)

section \<open>Auxiliary facts\<close>

lemmas trace_defs =
  registers_def hands_off_def removes_def registered_def handed_def removal_def

lemma Fifo_Shift_Some [simp]: "Fifo_Shift a = Some (v, b) \<longleftrightarrow> a = v # b"
  by (cases a) auto

lemma Fifo_Shift_None [simp]: "Fifo_Shift a = None \<longleftrightarrow> a = []"
  by (cases a) auto

lemma const_upd_same [simp]: "(\<lambda>_. c)(x := c) = (\<lambda>_. c)"
  by (simp add: fun_eq_iff)

lemma exec_append:
  "exec s (as @ bs) = (case exec s as of None \<Rightarrow> None | Some s' \<Rightarrow> exec s' bs)"
  by (induction as arbitrary: s) (auto split: option.splits)

lemma sint_succ:
  fixes x y :: "64 word"
  assumes "sint x < sint y"
  shows "sint (x + 1) = sint x + 1"
proof -
  have "sint y < 2 ^ (LENGTH(64) - 1)"
    by (rule sint_lt)
  moreover have "- (2 ^ (LENGTH(64) - 1)) \<le> sint x"
    by (rule sint_ge)
  ultimately show ?thesis
    using assms by (simp add: sint_word_ariths signed_take_bit_int_eq_self)
qed

lemma count_update_nat:
  assumes "t < length xs"
  shows "length (filter P (xs[t := y])) + (if P (xs ! t) then 1 else 0) =
         length (filter P xs) + (if P y then 1 else 0)"
proof -
  have old: "filter P xs = filter P (take t xs) @ filter P [xs ! t] @ filter P (drop (Suc t) xs)"
    using assms by (metis append_Cons append_Nil filter_append id_take_nth_drop)
  have new: "filter P (xs[t := y]) = filter P (take t xs) @ filter P [y] @ filter P (drop (Suc t) xs)"
    using assms by (metis append_Cons append_Nil filter_append upd_conv_take_nth_drop)
  show ?thesis
    unfolding old new by simp
qed

lemma count_update:
  assumes "t < length xs"
  shows "int (length (filter P (xs[t := y]))) =
     int (length (filter P xs)) - (if P (xs ! t) then 1 else 0) + (if P y then 1 else 0)"
  using count_update_nat [OF assms, of P y] by (simp split: if_splits)

lemma length_filter_bound: "int (length xs) \<le> m \<Longrightarrow> int (length (filter P xs)) \<le> m"
  using length_filter_le [of P xs] by linarith

lemma nth_of_prefix:
  assumes "xs @ ys = zs @ ws" and "n < length xs" and "n < length zs"
  shows "xs ! n = zs ! n"
  using assms by (metis nth_append)

subsection \<open>The limits are never written\<close>

lemma thread_step_config:
  "thread_step s t c th = Some s' \<Longrightarrow> MaxItems s' = MaxItems s \<and> MaxWaiters s' = MaxWaiters s"
  by (cases th)
     (auto simp: model_defs Let_def
           split: option.splits sum.splits list.splits if_splits choice.splits loadfn.splits)

lemma step_config:
  "step s a = Some s' \<Longrightarrow> MaxItems s' = MaxItems s \<and> MaxWaiters s' = MaxWaiters s"
  by (cases a) (auto dest: thread_step_config split: if_splits)

section \<open>The cap on waiters\<close>

lemma thread_step_waiters_inv:
  assumes "thread_step s t c th = Some s'" and "0 <s MaxWaiters s" and "waiters_inv s"
  shows "waiters_inv s'"
  using assms
  by (cases th)
     (auto simp: model_defs Let_def waiters_inv_def word_sless_alt length_filter_bound
           split: option.splits sum.splits list.splits if_splits choice.splits loadfn.splits)

lemma exec_waiters_inv:
  "exec s as = Some s' \<Longrightarrow> 0 <s MaxWaiters s \<Longrightarrow> waiters_inv s \<Longrightarrow>
     waiters_inv s' \<and> MaxWaiters s' = MaxWaiters s"
proof (induction as arbitrary: s)
  case Nil
  then show ?case by simp
next
  case (Cons a as)
  from Cons.prems(1) obtain s1 where a: "step s a = Some s1" and rest: "exec s1 as = Some s'"
    by (auto split: option.splits)
  have cfg: "MaxWaiters s1 = MaxWaiters s"
    using a by (simp add: step_config)
  have "waiters_inv s1"
  proof (cases a)
    case (Step t c)
    with a Cons.prems show ?thesis
      by (auto dest: thread_step_waiters_inv split: if_splits)
  qed (use a Cons.prems in \<open>auto simp: waiters_inv_def split: if_splits\<close>)
  with Cons.IH [OF rest] cfg Cons.prems(2) show ?case
    by simp
qed

lemma Take_MaxWaiters:
  assumes "ready s = []" and "\<not> closed s" and "ctxs s ctx = None"
    and "readyMu s = None" and "waitersMu s = None"
    and "0 <s MaxWaiters s" and "sint (MaxWaiters s) \<le> int (length (waiters s))"
    and "n = length (threads s)"
  shows "exec s [Call (CallTake ctx load), Step n c1, Step n c2, Step n c3, Step n c4] =
           Some (s\<lparr>threads := threads s @ [Returned (TakeRet (Inl ErrMaxWaiters))]\<rparr>)"
  using assms by (cases s) (simp add: model_defs nth_append list_update_append)

text \<open>
  Claim C7. On a pool with an empty ready stack that is not closed, with a context that
  is not cancelled, \<open>MaxWaiters > 0\<close> and at least \<open>MaxWaiters\<close> queued waiters (both
  mutexes free), a call of Take runs four steps and returns \<open>ErrMaxWaiters\<close>; the state
  after the call is the state before it, but for the returned goroutine: no waiter is
  registered, \<open>loads\<close> is not incremented, no load goroutine is started. And in every
  state that an execution reaches from the initial state of a List with
  \<open>MaxWaiters = mw > 0\<close>, the waiter queue holds at most \<open>mw\<close> entries.
\<close>

theorem MaxWaiters_enforced:
  "(ready (s :: 'a::zero state) = [] \<and> \<not> closed s \<and> ctxs s ctx = None \<and>
    readyMu s = None \<and> waitersMu s = None \<and>
    0 <s MaxWaiters s \<and> sint (MaxWaiters s) \<le> int (length (waiters s)) \<and>
    n = length (threads s) \<longrightarrow>
      exec s [Call (CallTake ctx load), Step n c1, Step n c2, Step n c3, Step n c4] =
        Some (s\<lparr>threads := threads s @ [Returned (TakeRet (Inl ErrMaxWaiters))]\<rparr>)) \<and>
   (exec (init mi mw) as = Some (s' :: 'a state) \<and> 0 <s mw \<longrightarrow>
      int (length (waiters s')) \<le> sint mw)"
proof (intro conjI)
  show "exec (init mi mw) as = Some s' \<and> 0 <s mw \<longrightarrow> int (length (waiters s')) \<le> sint mw"
  proof
    assume h: "exec (init mi mw) as = Some s' \<and> 0 <s mw"
    then have run: "exec (init mi mw) as = Some s'" and pos: "0 <s mw"
      by simp_all
    have p0: "0 <s MaxWaiters (init mi mw :: 'a state)"
      using pos by (simp add: init_def)
    have i0: "waiters_inv (init mi mw :: 'a state)"
      using pos by (simp add: init_def waiters_inv_def word_sless_alt)
    from exec_waiters_inv [OF run p0 i0] show "int (length (waiters s')) \<le> sint mw"
      by (auto simp: waiters_inv_def init_def)
  qed
qed (rule impI, elim conjE, rule Take_MaxWaiters; assumption)

theorem MaxWaiters_enforced_witness:
  "ready one_waiter = [] \<and> \<not> closed one_waiter \<and> ctxs one_waiter 2 = None \<and>
   readyMu one_waiter = None \<and> waitersMu one_waiter = None \<and>
   0 <s MaxWaiters one_waiter \<and> sint (MaxWaiters one_waiter) \<le> int (length (waiters one_waiter)) \<and>
   2 = length (threads one_waiter) \<and>
   exec one_waiter [Call (CallTake 2 LoadFn), Step 2 Default, Step 2 Default, Step 2 Default,
                    Step 2 PoolNil] =
     Some (one_waiter\<lparr>threads := threads one_waiter @ [Returned (TakeRet (Inl ErrMaxWaiters))]\<rparr>) \<and>
   exec (init 2 1) one_waiter_schedule = Some one_waiter \<and> (0 :: 64 word) <s 1 \<and>
   int (length (waiters one_waiter)) \<le> sint (1 :: 64 word)"
  using MaxWaiters_enforced [where s = one_waiter and ctx = 2 and n = 2 and load = LoadFn
      and ?c1.0 = Default and ?c2.0 = Default and ?c3.0 = Default and ?c4.0 = PoolNil
      and mi = 2 and mw = 1 and as = one_waiter_schedule and s' = one_waiter]
  by (simp add: one_waiter_def one_waiter_schedule_def init_def model_defs word_sless_alt)

section \<open>The cap on construction\<close>

lemma thread_step_loads_inv:
  assumes "thread_step s t c (threads s ! t) = Some s'" and "t < length (threads s)"
    and "0 <s MaxItems s" and "loads_inv s"
  shows "loads_inv s'"
  using assms
  by (cases "threads s ! t")
     (auto simp: model_defs Let_def loads_inv_def pending_loads_def word_sless_alt sint_succ
             count_update nth_append
           split: option.splits sum.splits list.splits if_splits choice.splits loadfn.splits)

lemma exec_loads_inv:
  "exec s as = Some s' \<Longrightarrow> 0 <s MaxItems s \<Longrightarrow> loads_inv s \<Longrightarrow>
     loads_inv s' \<and> MaxItems s' = MaxItems s"
proof (induction as arbitrary: s)
  case Nil
  then show ?case by simp
next
  case (Cons a as)
  from Cons.prems(1) obtain s1 where a: "step s a = Some s1" and rest: "exec s1 as = Some s'"
    by (auto split: option.splits)
  have cfg: "MaxItems s1 = MaxItems s"
    using a by (simp add: step_config)
  have "loads_inv s1"
  proof (cases a)
    case (Step t c)
    with a Cons.prems show ?thesis
      by (auto dest: thread_step_loads_inv split: if_splits)
  next
    case (Call op)
    with a Cons.prems show ?thesis
      by (cases op) (auto simp: loads_inv_def pending_loads_def)
  qed (use a Cons.prems in \<open>auto simp: loads_inv_def pending_loads_def split: if_splits\<close>)
  with Cons.IH [OF rest] cfg Cons.prems(2) show ?case
    by simp
qed

lemma loads_change:
  assumes "step s a = Some s'" and "loads s' \<noteq> loads s"
  shows "\<exists>t c ctx load ch. a = Step t c \<and> t < length (threads s) \<and>
           threads s ! t = Take_spawn ctx load ch \<and> ctxs s ctx = None \<and>
           (MaxItems s = 0 \<or> loads s <s MaxItems s) \<and> loads s' = loads s + 1 \<and>
           threads s' = (threads s @ [Go_load load])[t := Take_select ctx ch]"
proof (cases a)
  case (Step t c)
  with assms have *: "t < length (threads s)" "thread_step s t c (threads s ! t) = Some s'"
    by (auto split: if_splits)
  show ?thesis
    using * assms(2) Step
    by (cases "threads s ! t")
       (auto simp: model_defs Let_def
             split: option.splits sum.splits list.splits if_splits choice.splits loadfn.splits)
qed (use assms in \<open>auto split: if_splits\<close>)

text \<open>
  Claim C2. In every state that an execution (calls of Take, TryTake, Put and Close,
  cancellations, and the steps of the goroutines in any interleaving) reaches from the
  initial state of a List with \<open>MaxItems = mi > 0\<close>, \<open>loads\<close> is at most \<open>mi\<close> and at most
  \<open>mi\<close> calls of a load function have been made. And a step that changes \<open>loads\<close> is the
  step of a Take that has just registered its channel (it is at \<open>Take_spawn\<close>, never a
  step of Put), taken with a context that is not cancelled and with \<open>MaxItems = 0\<close> or
  \<open>loads < MaxItems\<close>; it adds one to \<open>loads\<close> and starts one load goroutine.
\<close>

theorem loads_bounded:
  "(exec (init mi mw) as = Some (s :: 'a::zero state) \<and> 0 <s mi \<longrightarrow>
      sint (loads s) \<le> sint mi \<and> int (calls s) \<le> sint mi) \<and>
   (step (u :: 'a state) a = Some u' \<and> loads u' \<noteq> loads u \<longrightarrow>
      (\<exists>t c ctx load ch. a = Step t c \<and> t < length (threads u) \<and>
           threads u ! t = Take_spawn ctx load ch \<and> ctxs u ctx = None \<and>
           (MaxItems u = 0 \<or> loads u <s MaxItems u) \<and> loads u' = loads u + 1 \<and>
           threads u' = (threads u @ [Go_load load])[t := Take_select ctx ch]))"
proof (intro conjI impI)
  assume h: "exec (init mi mw) as = Some s \<and> 0 <s mi"
  then have run: "exec (init mi mw) as = Some s" and pos: "0 <s mi"
    by simp_all
  have p0: "0 <s MaxItems (init mi mw :: 'a state)"
    using pos by (simp add: init_def)
  have i0: "loads_inv (init mi mw :: 'a state)"
    using pos by (simp add: init_def loads_inv_def pending_loads_def word_sless_alt)
  from exec_loads_inv [OF run p0 i0]
  have "sint (loads s) \<le> sint mi" and "int (calls s) + int (pending_loads s) = sint (loads s)"
    by (auto simp: loads_inv_def init_def)
  then show "sint (loads s) \<le> sint mi" and "int (calls s) \<le> sint mi"
    by linarith+
qed (auto dest: loads_change)

theorem loads_bounded_witness:
  "exec (init 2 1) (one_waiter_schedule @ [Step 1 Default]) = Some one_loaded \<and>
   (0 :: 64 word) <s 2 \<and>
   sint (loads one_loaded) \<le> sint (2 :: 64 word) \<and> int (calls one_loaded) \<le> sint (2 :: 64 word) \<and>
   loads one_loaded = 1 \<and> calls one_loaded = 1 \<and>
   step registering (Step 0 Default) = Some one_waiter \<and> loads one_waiter \<noteq> loads registering \<and>
   (\<exists>t c ctx load ch. Step 0 Default = (Step t c :: int action) \<and> t < length (threads registering) \<and>
       threads registering ! t = Take_spawn ctx load ch \<and> ctxs registering ctx = None \<and>
       (MaxItems registering = 0 \<or> loads registering <s MaxItems registering) \<and>
       loads one_waiter = loads registering + 1 \<and>
       threads one_waiter = (threads registering @ [Go_load load])[t := Take_select ctx ch])"
  using loads_bounded [where mi = 2 and mw = 1 and as = "one_waiter_schedule @ [Step 1 Default]"
      and s = one_loaded and u = registering and a = "Step 0 Default" and u' = one_waiter]
  by (simp add: one_waiter_def one_loaded_def registering_def one_waiter_schedule_def init_def
        model_defs word_sless_alt)

section \<open>Close\<close>

text \<open>
  Claim C4, at inputs where it fails. (1) In \<open>close_cancel_schedule\<close> the Take of
  goroutine 0 is blocked when Close is called (after the first 6 actions neither case of
  its select is ready). Close closes its channel, the context is cancelled afterwards,
  and the Take returns the zero value with a nil error instead of \<open>ErrClosed\<close>. (2) In
  \<open>double_close_schedule\<close> the pool is open and the waiter queue holds channel 0 twice
  when Close is called; the loop of Close closes channel 0 and panics at the second
  \<open>close\<close> of it. (3) In \<open>late_register_schedule\<close> Close has returned, and afterwards the
  waiter queue holds the channel of a Take that had passed its check of \<open>closed\<close>
  before; this Take waits with no case of its select ready, and the Put of its load
  goroutine has returned false.
\<close>

theorem Close_leaves_Take_without_ErrClosed:
  "map_option
     (\<lambda>s. (threads s ! 0, waiters s, closed s,
           map_option (\<lambda>_. ()) (step s (Step 0 SelRecv)),
           map_option (\<lambda>_. ()) (step s (Step 0 SelDone))))
     (exec (init 0 0) (take 6 close_cancel_schedule)) =
     Some (Take_select 1 0, [0], False, None, None) \<and>
   map_option (\<lambda>s. (threads s ! 0, threads s ! 2, closed s, chclosed (chans s 0)))
     (exec (init 0 0) close_cancel_schedule) =
     Some (Returned (TakeRet (Inr 0)), Returned CloseRet, True, True) \<and>
   map_option (\<lambda>s. (threads s ! 4, threads s ! 6, waiters s, closed s))
     (exec (init 0 0) (take 30 double_close_schedule)) =
     Some (Take_select 3 0, Close_entry, [0, 0], False) \<and>
   map_option (\<lambda>s. (threads s ! 4, threads s ! 6, closed s))
     (exec (init 0 0) double_close_schedule) =
     Some (Take_select 3 0, Panicked ''close of closed channel'', True) \<and>
   map_option
     (\<lambda>s. (threads s ! 0, threads s ! 1, threads s ! 2, waiters s, closed s, ctxs s 1,
           map_option (\<lambda>_. ()) (step s (Step 0 SelRecv)),
           map_option (\<lambda>_. ()) (step s (Step 0 SelDone))))
     (exec (init 0 0) late_register_schedule) =
     Some (Take_select 1 0, Returned CloseRet, Returned (PutRet False), [0], True, None,
           None, None)"
  unfolding close_cancel_schedule_def double_close_schedule_def late_register_schedule_def
    stale_cell_schedule_def
  by code_simp

lemma step_closed: "step s a = Some s' \<Longrightarrow> closed s \<Longrightarrow> closed s'"
proof (cases a)
  case (Step t c)
  assume "step s a = Some s'" "closed s"
  with Step have *: "t < length (threads s)" "thread_step s t c (threads s ! t) = Some s'"
    by (auto split: if_splits)
  show ?thesis
    using * \<open>closed s\<close>
    by (cases "threads s ! t")
       (auto simp: model_defs Let_def
             split: option.splits sum.splits list.splits if_splits choice.splits loadfn.splits)
qed (auto split: if_splits)

lemma exec_closed: "exec s as = Some s' \<Longrightarrow> closed s \<Longrightarrow> closed s'"
proof (induction as arbitrary: s)
  case (Cons a as)
  then show ?case
    by (auto split: option.splits dest: step_closed)
qed simp

text \<open>
  The loop of Close, for a queue of distinct open channels: one step per queued channel
  and one for the exit.
\<close>

lemma Close_loop_drains:
  assumes "waiters s = a" and "t < length (threads s)" and "threads s ! t = Close_loop"
    and "distinct a" and "\<forall>ch\<in>set a. \<not> chclosed (chans s ch)"
  shows "exec s (replicate (Suc (length a)) (Step t c)) =
           Some (s\<lparr>waitersMu := None, waiters := [], chans := close_all a (chans s),
                   threads := (threads s)[t := Returned CloseRet]\<rparr>)"
  using assms
proof (induction a arbitrary: s)
  case Nil
  then show ?case
    by (cases s) (simp add: model_defs close_all_def)
next
  case (Cons ch a)
  let ?s1 = "s\<lparr>waiters := a, chans := (chans s)(ch := (chans s ch)\<lparr>chclosed := True\<rparr>)\<rparr>"
  have one: "step s (Step t c) = Some ?s1"
    using Cons.prems by (cases s) (simp add: model_defs list_update_same_conv)
  have "exec ?s1 (replicate (Suc (length a)) (Step t c)) =
           Some (?s1\<lparr>waitersMu := None, waiters := [], chans := close_all a (chans ?s1),
                   threads := (threads ?s1)[t := Returned CloseRet]\<rparr>)"
    using Cons.prems by (intro Cons.IH) auto
  moreover have "close_all a (chans ?s1) = close_all (ch # a) (chans s)"
    using Cons.prems by (auto simp: close_all_def fun_eq_iff)
  ultimately show ?case
    using one by simp
qed

lemma Close_first:
  assumes "\<not> closed s" and "waitersMu s = None" and "distinct (waiters s)"
    and "\<forall>ch\<in>set (waiters s). \<not> chclosed (chans s ch)" and "n = length (threads s)"
  shows "exec s (Call CallClose # replicate (length (waiters s) + 3) (Step n c)) =
           Some (s\<lparr>closed := True, waiters := [], chans := close_all (waiters s) (chans s),
                   threads := threads s @ [Returned CloseRet]\<rparr>)"
proof -
  let ?s2 = "s\<lparr>closed := True, waitersMu := Some n, threads := threads s @ [Close_loop]\<rparr>"
  have split: "Call CallClose # replicate (length (waiters s) + 3) (Step n c) =
        [Call CallClose, Step n c, Step n c] @ replicate (Suc (length (waiters s))) (Step n c)"
    by (simp add: numeral_3_eq_3)
  have pre: "exec s [Call CallClose, Step n c, Step n c] = Some ?s2"
    using assms by (cases s) (simp add: model_defs nth_append list_update_append)
  have "exec ?s2 (replicate (Suc (length (waiters s))) (Step n c)) =
          Some (?s2\<lparr>waitersMu := None, waiters := [], chans := close_all (waiters s) (chans ?s2),
                   threads := (threads ?s2)[n := Returned CloseRet]\<rparr>)"
    using assms by (intro Close_loop_drains) (auto simp: nth_append)
  then show ?thesis
    unfolding split exec_append pre using assms by (cases s) (simp add: list_update_append)
qed

lemma Close_again:
  assumes "closed s" and "n = length (threads s)"
  shows "exec s [Call CallClose, Step n c] = Some (s\<lparr>threads := threads s @ [Returned CloseRet]\<rparr>)"
  using assms by (cases s) (simp add: model_defs nth_append list_update_append)

lemma Take_after_Close:
  assumes "closed s" and "ready s = []" and "readyMu s = None" and "n = length (threads s)"
  shows "exec s [Call (CallTake ctx load), Step n c1, Step n c2] =
           Some (s\<lparr>threads := threads s @ [Returned (TakeRet (Inl ErrClosed))]\<rparr>)"
  using assms by (cases s) (simp add: model_defs nth_append list_update_append)

lemma waiting_Take_closed:
  assumes "t < length (threads s)" and "threads s ! t = Take_select ctx ch"
    and "buf (chans s ch) = None" and "chclosed (chans s ch)"
  shows "exec s [Step t SelRecv, Step t c] =
           Some (s\<lparr>chanPool := chanPool s @ [ch],
                   threads := (threads s)[t := Returned (TakeRet (Inl ErrClosed))]\<rparr>)"
  using assms by (cases s) (simp add: model_defs fun_upd_idem)

lemma waiting_Take_only_recv:
  assumes "t < length (threads s)" and "threads s ! t = Take_select ctx ch"
    and "ctxs s ctx = None" and "step s (Step t c) \<noteq> None"
  shows "c = SelRecv"
  using assms by (cases c) (simp_all add: model_defs)

text \<open>
  Close on a queue of waiters that still wait. (1) Along every execution, once \<open>closed\<close>
  is true it stays true. (2) On a pool that is not closed, with waitersMu free, a call of
  Close run to its end sets \<open>closed\<close>, closes the channel of every queued waiter, leaves
  the waiter queue empty and changes nothing else, when the queued channels are distinct
  and open (the executions above reach queues where they are not). (3) A Take that waits
  in its select on a closed empty channel and takes the receive case puts its channel
  into \<open>chanPool\<close> and returns \<open>ErrClosed\<close>; while its context is not cancelled this is its
  only enabled step. (4) A call of Close on a closed pool returns with no change of the
  state. (5) On a closed pool with an empty ready stack a call of Take that starts there
  returns \<open>ErrClosed\<close> with no change of the state.
\<close>

lemma Close_contract:
  "(exec (s :: 'a::zero state) as = Some s' \<and> closed s \<longrightarrow> closed s') \<and>
   (\<not> closed (u :: 'a state) \<and> waitersMu u = None \<and> distinct (waiters u) \<and>
    (\<forall>ch\<in>set (waiters u). \<not> chclosed (chans u ch)) \<and> n = length (threads u) \<longrightarrow>
      exec u (Call CallClose # replicate (length (waiters u) + 3) (Step n c)) =
        Some (u\<lparr>closed := True, waiters := [], chans := close_all (waiters u) (chans u),
                threads := threads u @ [Returned CloseRet]\<rparr>)) \<and>
   (t < length (threads (w :: 'a state)) \<and> threads w ! t = Take_select ctx ch \<and>
    buf (chans w ch) = None \<and> chclosed (chans w ch) \<longrightarrow>
      exec w [Step t SelRecv, Step t c1] =
        Some (w\<lparr>chanPool := chanPool w @ [ch],
                threads := (threads w)[t := Returned (TakeRet (Inl ErrClosed))]\<rparr>) \<and>
      (ctxs w ctx = None \<and> step w (Step t c2) \<noteq> None \<longrightarrow> c2 = SelRecv)) \<and>
   (closed (v :: 'a state) \<and> m = length (threads v) \<longrightarrow>
      exec v [Call CallClose, Step m c3] = Some (v\<lparr>threads := threads v @ [Returned CloseRet]\<rparr>)) \<and>
   (closed (v :: 'a state) \<and> ready v = [] \<and> readyMu v = None \<and> m = length (threads v) \<longrightarrow>
      exec v [Call (CallTake ctx' load), Step m c4, Step m c5] =
        Some (v\<lparr>threads := threads v @ [Returned (TakeRet (Inl ErrClosed))]\<rparr>))"
proof (intro conjI impI)
  assume "exec s as = Some s' \<and> closed s"
  then show "closed s'"
    by (auto dest: exec_closed)
next
  assume "\<not> closed u \<and> waitersMu u = None \<and> distinct (waiters u) \<and>
    (\<forall>ch\<in>set (waiters u). \<not> chclosed (chans u ch)) \<and> n = length (threads u)"
  then show "exec u (Call CallClose # replicate (length (waiters u) + 3) (Step n c)) =
        Some (u\<lparr>closed := True, waiters := [], chans := close_all (waiters u) (chans u),
                threads := threads u @ [Returned CloseRet]\<rparr>)"
    by (intro Close_first) simp_all
next
  assume "t < length (threads w) \<and> threads w ! t = Take_select ctx ch \<and>
    buf (chans w ch) = None \<and> chclosed (chans w ch)"
  then show "exec w [Step t SelRecv, Step t c1] =
        Some (w\<lparr>chanPool := chanPool w @ [ch],
                threads := (threads w)[t := Returned (TakeRet (Inl ErrClosed))]\<rparr>)"
    by (intro waiting_Take_closed) simp_all
next
  assume "t < length (threads w) \<and> threads w ! t = Take_select ctx ch \<and>
    buf (chans w ch) = None \<and> chclosed (chans w ch)"
    and "ctxs w ctx = None \<and> step w (Step t c2) \<noteq> None"
  then show "c2 = SelRecv"
    using waiting_Take_only_recv [of t w ctx ch c2] by simp
next
  assume "closed v \<and> m = length (threads v)"
  then show "exec v [Call CallClose, Step m c3] = Some (v\<lparr>threads := threads v @ [Returned CloseRet]\<rparr>)"
    by (intro Close_again) simp_all
next
  assume "closed v \<and> ready v = [] \<and> readyMu v = None \<and> m = length (threads v)"
  then show "exec v [Call (CallTake ctx' load), Step m c4, Step m c5] =
        Some (v\<lparr>threads := threads v @ [Returned (TakeRet (Inl ErrClosed))]\<rparr>)"
    by (intro Take_after_Close) simp_all
qed

lemma Close_contract_example:
  "exec two_closed [Call (CallPut 5), Step 5 Default] =
     Some (two_closed\<lparr>threads := threads two_closed @ [Returned (PutRet False)]\<rparr>) \<and>
   closed two_closed \<and>
   closed (two_closed\<lparr>threads := threads two_closed @ [Returned (PutRet False)]\<rparr>) \<and>
   \<not> closed two_waiters \<and> waitersMu two_waiters = None \<and> distinct (waiters two_waiters) \<and>
   waiters two_waiters = [0, 1] \<and>
   \<not> chclosed (chans two_waiters 0) \<and> \<not> chclosed (chans two_waiters 1) \<and>
   4 = length (threads two_waiters) \<and>
   exec two_waiters (Call CallClose # replicate (length (waiters two_waiters) + 3) (Step 4 Default)) =
     Some two_closed \<and>
   0 < length (threads two_closed) \<and> threads two_closed ! 0 = Take_select 1 0 \<and>
   buf (chans two_closed 0) = None \<and> chclosed (chans two_closed 0) \<and>
   exec two_closed [Step 0 SelRecv, Step 0 Default] =
     Some (two_closed\<lparr>chanPool := [0],
             threads := (threads two_closed)[0 := Returned (TakeRet (Inl ErrClosed))]\<rparr>) \<and>
   ctxs two_closed 1 = None \<and> step two_closed (Step 0 SelRecv) \<noteq> None \<and>
   5 = length (threads two_closed) \<and>
   exec two_closed [Call CallClose, Step 5 Default] =
     Some (two_closed\<lparr>threads := threads two_closed @ [Returned CloseRet]\<rparr>) \<and>
   ready two_closed = [] \<and> readyMu two_closed = None \<and>
   exec two_closed [Call (CallTake 3 LoadNil), Step 5 Default, Step 5 Default] =
     Some (two_closed\<lparr>threads := threads two_closed @ [Returned (TakeRet (Inl ErrClosed))]\<rparr>)"
  using Close_contract [where s = two_closed and as = "[Call (CallPut 5), Step 5 Default]"
      and s' = "two_closed\<lparr>threads := threads two_closed @ [Returned (PutRet False)]\<rparr>"
      and u = two_waiters and n = 4 and c = Default
      and w = two_closed and t = 0 and ctx = 1 and ch = 0 and ?c1.0 = Default and ?c2.0 = SelRecv
      and v = two_closed and m = 5 and ?c3.0 = Default and ctx' = 3 and load = LoadNil
      and ?c4.0 = Default and ?c5.0 = Default]
  by (simp add: two_closed_def two_waiters_def init_def model_defs close_all_def)

section \<open>Waiters are served in FIFO order\<close>

text \<open>
  Claim C1, at an input where it fails. In \<open>fifo_violation_schedule\<close> the channels are
  registered in the order 0 (the Take that is cancelled), 1 (goroutine 2), 0 (goroutine
  4), and the handoffs are (channel 0, value 0), (channel 1, value 10), (channel 0, value
  20). When goroutine 4 registers, goroutine 2 is queued before it and the value 0 of the
  first handoff is in its channel. Goroutine 4, the second waiter in the queue, returns 0
  before any handoff has followed its registration and while goroutine 2, the first
  waiter, still waits. Goroutine 2 receives the value 10 of the next handoff. The value 20
  of the handoff after that, which shifts the channel of goroutine 4, is sent into a
  channel on which no Take waits: Put returns true and the value stays in channel 0, in
  \<open>chanPool\<close>.
\<close>

theorem second_waiter_served_stale_value:
  "map_option (\<lambda>s. (threads s ! 2, threads s ! 4, waiters s, buf (chans s 0)))
     (exec (init 0 0) (take 27 fifo_violation_schedule)) =
     Some (Take_select 2 1, Take_select 3 0, [1, 0], Some 0) \<and>
   map_option (\<lambda>s. (threads s ! 2, threads s ! 4, waiters s, calls s))
     (exec (init 0 0) (take 29 fifo_violation_schedule)) =
     Some (Take_select 2 1, Returned (TakeRet (Inr 0)), [1, 0], 1) \<and>
   map_option
     (\<lambda>s. (threads s ! 2, threads s ! 4, threads s ! 3, threads s ! 5, waiters s,
           buf (chans s 0), chanPool s))
     (exec (init 0 0) fifo_violation_schedule) =
     Some (Returned (TakeRet (Inr 10)), Returned (TakeRet (Inr 0)), Returned (PutRet True),
           Returned (PutRet True), [], Some 20, [0, 1]) \<and>
   registrations (init 0 0) fifo_violation_schedule = [0, 1, 0] \<and>
   handoffs (init 0 0) fifo_violation_schedule = [(0, 0), (1, 10), (0, 20)]"
  unfolding fifo_violation_schedule_def stale_cell_schedule_def
  by code_simp

lemma thread_step_fifo:
  assumes "thread_step s t c (threads s ! t) = Some s'" and "t < length (threads s)"
    and "\<not> removes (threads s ! t)"
  shows "map fst (hands_off (threads s ! t) (threads s' ! t)) @ waiters s' =
         waiters s @ registers (threads s ! t) (threads s' ! t)"
  using assms
  by (cases "threads s ! t")
     (auto simp: model_defs Let_def registers_def hands_off_def removes_def nth_append
           split: option.splits sum.splits list.splits if_splits choice.splits loadfn.splits)

lemma step_fifo:
  assumes "step s a = Some s'" and "\<not> removal s a"
  shows "map fst (handed s a s') @ waiters s' = waiters s @ registered s a s'"
proof (cases a)
  case (Step t c)
  with assms show ?thesis
    by (auto simp: handed_def registered_def removal_def dest: thread_step_fifo split: if_splits)
qed (use assms in \<open>auto simp: handed_def registered_def split: if_splits\<close>)

lemma exec_fifo:
  "exec s as = Some s' \<Longrightarrow> no_removal s as \<Longrightarrow>
     map fst (handoffs s as) @ waiters s' = waiters s @ registrations s as"
proof (induction as arbitrary: s)
  case Nil
  then show ?case by simp
next
  case (Cons a as)
  from Cons.prems(1) obtain s1 where a: "step s a = Some s1" and rest: "exec s1 as = Some s'"
    by (auto split: option.splits)
  from Cons.prems(2) a have ok: "\<not> removal s a" and nr: "no_removal s1 as"
    by simp_all
  have "map fst (handoffs s (a # as)) @ waiters s' =
        map fst (handed s a s1) @ (map fst (handoffs s1 as) @ waiters s')"
    using a by simp
  also have "\<dots> = map fst (handed s a s1) @ (waiters s1 @ registrations s1 as)"
    by (simp only: Cons.IH [OF rest nr])
  also have "\<dots> = (map fst (handed s a s1) @ waiters s1) @ registrations s1 as"
    by simp
  also have "\<dots> = (waiters s @ registered s a s1) @ registrations s1 as"
    by (simp only: step_fifo [OF a ok])
  also have "\<dots> = waiters s @ registrations s (a # as)"
    using a by simp
  finally show ?case .
qed

lemma handoff_delivers:
  assumes "p < length (threads s)"
    and "threads s ! p = Put_send1 ch v \<or> threads s ! p = Put_send2 ch v"
    and "w < length (threads s)" and "threads s ! w = Take_select ctx ch"
    and "buf (chans s ch) = None" and "\<not> chclosed (chans s ch)"
  shows "\<exists>s'. exec s [Step p c, Step w SelRecv, Step w c'] = Some s' \<and>
            threads s' ! p = Returned (PutRet True) \<and>
            threads s' ! w = Returned (TakeRet (Inr v))"
proof -
  have "p \<noteq> w"
    using assms by auto
  then show ?thesis
    using assms by (auto simp: model_defs)
qed

text \<open>
  What the queue does in every execution, in any interleaving, whose steps on the waiter
  queue are registrations by Take and handoffs by Put (no removal by \<open>handleCancel\<close> or
  Close). Every registration appends its channel at the tail and every handoff shifts the
  head: the channels handed off, in the order of the handoffs, followed by the queue at
  the end, are the queue at the start followed by the channels registered, in the order
  of the registrations. So the n-th handoff takes the n-th queued channel. And when the
  channel that a Put has shifted is empty and open and a Take waits on it, the send
  succeeds, Put returns true, and that Take returns the value with a nil error. The
  execution above shows a registered channel that is not empty.
\<close>

lemma waiters_served_FIFO:
  "(exec (s :: 'a::zero state) as = Some s' \<and> no_removal s as \<longrightarrow>
      map fst (handoffs s as) @ waiters s' = waiters s @ registrations s as \<and>
      (\<forall>n. n < length (handoffs s as) \<and> n < length (waiters s) \<longrightarrow>
            fst (handoffs s as ! n) = waiters s ! n)) \<and>
   (p < length (threads (u :: 'a state)) \<and>
    (threads u ! p = Put_send1 ch v \<or> threads u ! p = Put_send2 ch v) \<and>
    w < length (threads u) \<and> threads u ! w = Take_select ctx ch \<and>
    buf (chans u ch) = None \<and> \<not> chclosed (chans u ch) \<longrightarrow>
      (\<exists>u'. exec u [Step p c, Step w SelRecv, Step w c'] = Some u' \<and>
            threads u' ! p = Returned (PutRet True) \<and>
            threads u' ! w = Returned (TakeRet (Inr v))))"
proof (intro conjI impI allI)
  assume h: "exec s as = Some s' \<and> no_removal s as"
  then show eq: "map fst (handoffs s as) @ waiters s' = waiters s @ registrations s as"
    by (auto dest: exec_fifo)
  fix n
  assume "n < length (handoffs s as) \<and> n < length (waiters s)"
  then have "map fst (handoffs s as) ! n = waiters s ! n"
    by (intro nth_of_prefix [OF eq]) simp_all
  then show "fst (handoffs s as ! n) = waiters s ! n"
    using \<open>n < length (handoffs s as) \<and> n < length (waiters s)\<close> by simp
next
  assume "p < length (threads u) \<and>
    (threads u ! p = Put_send1 ch v \<or> threads u ! p = Put_send2 ch v) \<and>
    w < length (threads u) \<and> threads u ! w = Take_select ctx ch \<and>
    buf (chans u ch) = None \<and> \<not> chclosed (chans u ch)"
  then have a: "p < length (threads u)"
      "threads u ! p = Put_send1 ch v \<or> threads u ! p = Put_send2 ch v"
      "w < length (threads u)" "threads u ! w = Take_select ctx ch"
      "buf (chans u ch) = None" "\<not> chclosed (chans u ch)"
    by blast+
  show "\<exists>u'. exec u [Step p c, Step w SelRecv, Step w c'] = Some u' \<and>
            threads u' ! p = Returned (PutRet True) \<and>
            threads u' ! w = Returned (TakeRet (Inr v))"
    by (rule handoff_delivers [OF a])
qed

lemma waiters_served_FIFO_example:
  "exec two_waiters two_handoffs = Some two_shifted \<and> no_removal two_waiters two_handoffs \<and>
   handoffs two_waiters two_handoffs = [(0, 10), (1, 20)] \<and> waiters two_waiters = [0, 1] \<and>
   registrations two_waiters two_handoffs = [] \<and> waiters two_shifted = [] \<and>
   0 < length (handoffs two_waiters two_handoffs) \<and> 0 < length (waiters two_waiters) \<and>
   fst (handoffs two_waiters two_handoffs ! 0) = waiters two_waiters ! 0 \<and>
   1 < length (handoffs two_waiters two_handoffs) \<and> 1 < length (waiters two_waiters) \<and>
   fst (handoffs two_waiters two_handoffs ! 1) = waiters two_waiters ! 1 \<and>
   3 < length (threads two_shifted) \<and> threads two_shifted ! 3 = Put_send1 1 20 \<and>
   2 < length (threads two_shifted) \<and> threads two_shifted ! 2 = Take_select 2 1 \<and>
   buf (chans two_shifted 1) = None \<and> \<not> chclosed (chans two_shifted 1) \<and>
   (\<exists>u'. exec two_shifted [Step 3 Default, Step 2 SelRecv, Step 2 Default] = Some u' \<and>
         threads u' ! 3 = Returned (PutRet True) \<and>
         threads u' ! 2 = Returned (TakeRet (Inr 20)))"
proof -
  have run: "exec two_waiters two_handoffs = Some two_shifted"
    by (simp add: two_waiters_def two_handoffs_def two_shifted_def init_def model_defs)
  have nr: "no_removal two_waiters two_handoffs"
    by (simp add: two_waiters_def two_handoffs_def init_def model_defs trace_defs)
  have hs: "handoffs two_waiters two_handoffs = [(0, 10), (1, 20)]"
    by (simp add: two_waiters_def two_handoffs_def init_def model_defs trace_defs)
  have rs: "registrations two_waiters two_handoffs = []"
    by (simp add: two_waiters_def two_handoffs_def init_def model_defs trace_defs)
  have pre: "3 < length (threads two_shifted) \<and> threads two_shifted ! 3 = Put_send1 1 20 \<and>
     2 < length (threads two_shifted) \<and> threads two_shifted ! 2 = Take_select 2 1 \<and>
     buf (chans two_shifted 1) = None \<and> \<not> chclosed (chans two_shifted 1)"
    by (simp add: two_shifted_def init_def model_defs)
  have ws: "waiters two_waiters = [0, 1]" "waiters two_shifted = []"
    by (simp_all add: two_waiters_def two_shifted_def init_def)
  show ?thesis
    using waiters_served_FIFO [where s = two_waiters and as = two_handoffs and s' = two_shifted
        and u = two_shifted and p = 3 and w = 2 and ch = 1 and v = 20 and ctx = 2
        and c = Default and c' = Default]
    using run nr hs rs pre ws by simp
qed

section \<open>Put\<close>

text \<open>
  Claim C5, at an input where it fails. After the first 21 actions of
  \<open>stale_cell_schedule\<close> the pool is not closed, both mutexes are free, and the waiter
  queue holds the channel of the Take of goroutine 2, which waits. A call \<open>Put(9)\<close> then
  shifts that channel, finds it full and panics in \<open>maybeHandoff\<close>: it neither hands 9 to
  the waiter nor returns true.
\<close>

theorem Put_panics_with_waiter_queued:
  "map_option
     (\<lambda>s. (closed s, readyMu s, waitersMu s, waiters s, threads s ! 2, buf (chans s 0)))
     (exec (init 0 0) (take 21 stale_cell_schedule)) =
     Some (False, None, None, [0], Take_select 2 0, Some 0) \<and>
   map_option (\<lambda>s. (threads s ! 4, threads s ! 2, waiters s, ready s))
     (exec (init 0 0) full_head_schedule) =
     Some (Panicked ''waiter: waiter channel full (this is a bug in waitlist)'',
           Take_select 2 0, [], [])"
  unfolding full_head_schedule_def stale_cell_schedule_def
  by code_simp

lemma Put_closed:
  assumes "closed s" and "n = length (threads s)"
  shows "exec s [Call (CallPut v), Step n c] =
           Some (s\<lparr>threads := threads s @ [Returned (PutRet False)]\<rparr>)"
  using assms by (cases s) (simp add: model_defs nth_append list_update_append)

lemma Put_handoff:
  assumes "\<not> closed s" and "waitersMu s = None" and "waiters s = ch # a"
    and "buf (chans s ch) = None" and "\<not> chclosed (chans s ch)" and "n = length (threads s)"
  shows "exec s [Call (CallPut v), Step n c1, Step n c2, Step n c3] =
           Some (s\<lparr>waiters := a, chans := (chans s)(ch := (chans s ch)\<lparr>buf := Some v\<rparr>),
                   threads := threads s @ [Returned (PutRet True)]\<rparr>)"
  using assms by (cases s) (simp add: model_defs nth_append list_update_append)

lemma Put_no_waiter:
  assumes "\<not> closed s" and "waitersMu s = None" and "readyMu s = None" and "waiters s = []"
    and "n = length (threads s)"
  shows "exec s [Call (CallPut v), Step n c1, Step n c2, Step n c3, Step n c4, Step n c5] =
           Some (s\<lparr>ready := ready s @ [v], threads := threads s @ [Returned (PutRet True)]\<rparr>)"
  using assms by (cases s) (simp add: model_defs nth_append list_update_append)

lemma Put_only_waits_for_mutex:
  assumes "is_Put th" and "thread_step s t c th = None"
  shows "\<exists>x. (th = Put_handoff1 x \<or> th = Put_handoff2 x) \<and> waitersMu s \<noteq> None \<or>
             th = Put_lock x \<and> readyMu s \<noteq> None"
  using assms
  by (cases th) (auto simp: model_defs split: option.splits sum.splits list.splits if_splits)

lemma ready_grows_only_by_push:
  assumes "step s a = Some s'" and "length (ready s) < length (ready s')"
  shows "\<exists>t c x. a = Step t c \<and> t < length (threads s) \<and> threads s ! t = Put_push x \<and>
            ready s' = ready s @ [x]"
proof (cases a)
  case (Step t c)
  with assms have *: "t < length (threads s)" "thread_step s t c (threads s ! t) = Some s'"
    by (auto split: if_splits)
  show ?thesis
    using * assms(2) Step
    by (cases "threads s ! t")
       (auto simp: model_defs Let_def
             split: option.splits sum.splits list.splits if_splits choice.splits loadfn.splits)
qed (use assms in \<open>auto split: if_splits\<close>)

lemma thread_step_Put_push_origin:
  assumes "thread_step s u c (threads s ! u) = Some s'" and "u < length (threads s)"
    and "t < length (threads s')" and "threads s' ! t = Put_push x"
  shows "t < length (threads s) \<and>
         (threads s ! t = Put_push x \<or> threads s ! t = Put_handoff2 x \<and> waiters s = [])"
  using assms
  by (cases "threads s ! u")
     (auto simp: model_defs Let_def nth_list_update nth_append less_Suc_eq
           split: option.splits sum.splits list.splits if_splits choice.splits loadfn.splits)

lemma Put_push_origin:
  assumes "step s a = Some s'" and "t < length (threads s')" and "threads s' ! t = Put_push x"
  shows "t < length (threads s) \<and>
         (threads s ! t = Put_push x \<or> threads s ! t = Put_handoff2 x \<and> waiters s = [])"
proof (cases a)
  case (Step u c)
  with assms show ?thesis
    by (auto dest: thread_step_Put_push_origin split: if_splits)
next
  case (Call op)
  with assms show ?thesis
    by (cases op) (auto simp: nth_append less_Suc_eq split: if_splits)
qed (use assms in \<open>auto split: if_splits\<close>)

text \<open>
  Put run alone. (1) On a closed pool a call of Put is one step: it returns false and
  changes nothing. (2) On a pool that is not closed whose waiter queue is not empty
  (waitersMu free), when the channel at the head of the queue is open and empty, Put
  shifts it, sends \<open>v\<close> into it and returns true; the ready stack and everything else stay
  as they are (the execution above reaches a head channel that is not empty). (3) On a
  pool that is not closed with an empty waiter queue (both mutexes free), Put finds no
  waiter, locks readyMu, checks \<open>closed\<close> again, tries the handoff again, pushes \<open>v\<close> on
  the ready stack and returns true. (4) A step that makes the ready stack longer is the
  push of a Put, and (5) a Put arrives at its push only from its second handoff attempt,
  when that found the waiter queue empty. (6) A step of Put is not enabled only while
  another goroutine holds the mutex it is about to lock.
\<close>

lemma Put_contract:
  "(closed (s1 :: 'a::zero state) \<and> n1 = length (threads s1) \<longrightarrow>
      exec s1 [Call (CallPut v), Step n1 c] =
        Some (s1\<lparr>threads := threads s1 @ [Returned (PutRet False)]\<rparr>)) \<and>
   (\<not> closed (s2 :: 'a state) \<and> waitersMu s2 = None \<and> waiters s2 = ch # a \<and>
    buf (chans s2 ch) = None \<and> \<not> chclosed (chans s2 ch) \<and> n2 = length (threads s2) \<longrightarrow>
      exec s2 [Call (CallPut v), Step n2 c1, Step n2 c2, Step n2 c3] =
        Some (s2\<lparr>waiters := a, chans := (chans s2)(ch := (chans s2 ch)\<lparr>buf := Some v\<rparr>),
                 threads := threads s2 @ [Returned (PutRet True)]\<rparr>)) \<and>
   (\<not> closed (s3 :: 'a state) \<and> waitersMu s3 = None \<and> readyMu s3 = None \<and> waiters s3 = [] \<and>
    n3 = length (threads s3) \<longrightarrow>
      exec s3 [Call (CallPut v), Step n3 c1, Step n3 c2, Step n3 c3, Step n3 c4, Step n3 c5] =
        Some (s3\<lparr>ready := ready s3 @ [v], threads := threads s3 @ [Returned (PutRet True)]\<rparr>)) \<and>
   (step (s4 :: 'a state) a4 = Some s4' \<and> length (ready s4) < length (ready s4') \<longrightarrow>
      (\<exists>t c x. a4 = Step t c \<and> t < length (threads s4) \<and> threads s4 ! t = Put_push x \<and>
         ready s4' = ready s4 @ [x])) \<and>
   (step (s5 :: 'a state) a5 = Some s5' \<and> t5 < length (threads s5') \<and>
    threads s5' ! t5 = Put_push x5 \<longrightarrow>
      t5 < length (threads s5) \<and>
      (threads s5 ! t5 = Put_push x5 \<or> threads s5 ! t5 = Put_handoff2 x5 \<and> waiters s5 = [])) \<and>
   (is_Put th \<and> thread_step (s6 :: 'a state) t6 c6 th = None \<longrightarrow>
      (\<exists>x. (th = Put_handoff1 x \<or> th = Put_handoff2 x) \<and> waitersMu s6 \<noteq> None \<or>
           th = Put_lock x \<and> readyMu s6 \<noteq> None))"
proof (intro conjI impI)
  assume "closed s1 \<and> n1 = length (threads s1)"
  then show "exec s1 [Call (CallPut v), Step n1 c] =
        Some (s1\<lparr>threads := threads s1 @ [Returned (PutRet False)]\<rparr>)"
    by (intro Put_closed) simp_all
next
  assume "\<not> closed s2 \<and> waitersMu s2 = None \<and> waiters s2 = ch # a \<and>
    buf (chans s2 ch) = None \<and> \<not> chclosed (chans s2 ch) \<and> n2 = length (threads s2)"
  then show "exec s2 [Call (CallPut v), Step n2 c1, Step n2 c2, Step n2 c3] =
        Some (s2\<lparr>waiters := a, chans := (chans s2)(ch := (chans s2 ch)\<lparr>buf := Some v\<rparr>),
                 threads := threads s2 @ [Returned (PutRet True)]\<rparr>)"
    by (intro Put_handoff) simp_all
next
  assume "\<not> closed s3 \<and> waitersMu s3 = None \<and> readyMu s3 = None \<and> waiters s3 = [] \<and>
    n3 = length (threads s3)"
  then show "exec s3 [Call (CallPut v), Step n3 c1, Step n3 c2, Step n3 c3, Step n3 c4, Step n3 c5] =
        Some (s3\<lparr>ready := ready s3 @ [v], threads := threads s3 @ [Returned (PutRet True)]\<rparr>)"
    by (intro Put_no_waiter) simp_all
next
  assume "step s4 a4 = Some s4' \<and> length (ready s4) < length (ready s4')"
  then show "\<exists>t c x. a4 = Step t c \<and> t < length (threads s4) \<and> threads s4 ! t = Put_push x \<and>
         ready s4' = ready s4 @ [x]"
    using ready_grows_only_by_push [of s4 a4 s4'] by simp
next
  assume h: "step s5 a5 = Some s5' \<and> t5 < length (threads s5') \<and> threads s5' ! t5 = Put_push x5"
  then show "t5 < length (threads s5)"
    using Put_push_origin [of s5 a5 s5' t5 x5] by simp
  from h show "threads s5 ! t5 = Put_push x5 \<or> threads s5 ! t5 = Put_handoff2 x5 \<and> waiters s5 = []"
    using Put_push_origin [of s5 a5 s5' t5 x5] by simp
next
  assume "is_Put th \<and> thread_step s6 t6 c6 th = None"
  then show "\<exists>x. (th = Put_handoff1 x \<or> th = Put_handoff2 x) \<and> waitersMu s6 \<noteq> None \<or>
           th = Put_lock x \<and> readyMu s6 \<noteq> None"
    using Put_only_waits_for_mutex [of th s6 t6 c6] by simp
qed

lemma Put_contract_example:
  "closed two_closed \<and> 5 = length (threads two_closed) \<and>
   exec two_closed [Call (CallPut 5), Step 5 Default] =
     Some (two_closed\<lparr>threads := threads two_closed @ [Returned (PutRet False)]\<rparr>) \<and>
   \<not> closed two_waiters \<and> waitersMu two_waiters = None \<and> waiters two_waiters = 0 # [1] \<and>
   buf (chans two_waiters 0) = None \<and> \<not> chclosed (chans two_waiters 0) \<and>
   4 = length (threads two_waiters) \<and>
   exec two_waiters [Call (CallPut 5), Step 4 Default, Step 4 Default, Step 4 Default] =
     Some (two_waiters\<lparr>waiters := [1],
             chans := (chans two_waiters)(0 := (chans two_waiters 0)\<lparr>buf := Some 5\<rparr>),
             threads := threads two_waiters @ [Returned (PutRet True)]\<rparr>) \<and>
   \<not> closed (init 2 1 :: int state) \<and> waitersMu (init 2 1 :: int state) = None \<and>
   readyMu (init 2 1 :: int state) = None \<and> waiters (init 2 1 :: int state) = [] \<and>
   0 = length (threads (init 2 1 :: int state)) \<and>
   exec (init 2 1 :: int state)
     [Call (CallPut 5), Step 0 Default, Step 0 Default, Step 0 Default, Step 0 Default, Step 0 Default] =
     Some ((init 2 1)\<lparr>ready := [5], threads := [Returned (PutRet True)]\<rparr>) \<and>
   step pushing (Step 0 Default) = Some pushed \<and> length (ready pushing) < length (ready pushed) \<and>
   (\<exists>t c x. Step 0 Default = (Step t c :: int action) \<and> t < length (threads pushing) \<and>
      threads pushing ! t = Put_push x \<and> ready pushed = ready pushing @ [x]) \<and>
   step second_attempt (Step 0 Default) = Some pushing \<and> 0 < length (threads pushing) \<and>
   threads pushing ! 0 = Put_push 5 \<and> threads second_attempt ! 0 = Put_handoff2 5 \<and>
   waiters second_attempt = [] \<and>
   is_Put (Put_lock 5 :: int thread) \<and> thread_step pushing 1 Default (Put_lock 5) = None \<and>
   readyMu pushing \<noteq> None"
  using Put_contract [where ?s1.0 = two_closed and ?n1.0 = 5 and v = 5 and c = Default
      and ?s2.0 = two_waiters and ch = 0 and a = "[1]" and ?n2.0 = 4
      and ?c1.0 = Default and ?c2.0 = Default and ?c3.0 = Default
      and ?s3.0 = "init 2 1" and ?n3.0 = 0 and ?c4.0 = Default and ?c5.0 = Default
      and ?s4.0 = pushing and ?a4.0 = "Step 0 Default" and ?s4'.0 = pushed
      and ?s5.0 = second_attempt and ?a5.0 = "Step 0 Default" and ?s5'.0 = pushing
      and ?t5.0 = 0 and ?x5.0 = 5
      and th = "Put_lock 5" and ?s6.0 = pushing and ?t6.0 = 1 and ?c6.0 = Default]
  by (simp add: two_closed_def two_waiters_def pushing_def pushed_def second_attempt_def
        init_def model_defs close_all_def)
end
